theory Spec2Isabelle
  imports Main "HOL-Library.Sublist"
begin

section \<open>Python string and dictionary primitives used by dnsbutler.py\<close>

text \<open>
  Strings are character lists; a character stands for a code point below 256.  (The two
  emoji of the messages, which lie beyond, are written as the three bytes of their
  UTF-8 form.)  The few library functions the program calls on strings
  are written out: \<open>str.join\<close>, \<open>str.split\<close> on a one-character separator,
  \<open>str.split(sep, 1)\<close>, \<open>str.strip\<close>, \<open>str.ljust\<close>, \<open>str\<close> and \<open>int\<close> on
  decimal numerals, and the slice \<open>xs[-2:]\<close>.
\<close>

definition NL :: string where
  "NL = [CHR 0x0A]"

fun join :: "string \<Rightarrow> string list \<Rightarrow> string" where
  "join sep [] = []"
| "join sep [x] = x"
| "join sep (x # y # ys) = x @ sep @ join sep (y # ys)"

text \<open>\<open>s.split(c)\<close>: always at least one field, empty fields are kept.\<close>

fun split :: "char \<Rightarrow> string \<Rightarrow> string list" where
  "split c [] = [[]]"
| "split c (x # xs) =
     (if x = c then [] # split c xs
      else (case split c xs of
              [] \<Rightarrow> [[x]]
            | w # ws \<Rightarrow> (x # w) # ws))"

text \<open>\<open>xs[-2:]\<close>: the last two elements, or all of them when there are fewer.\<close>

definition last_two :: "'a list \<Rightarrow> 'a list" where
  "last_two xs = drop (length xs - 2) xs"

text \<open>\<open>s.split(c, 1)\<close> for a string that contains \<open>c\<close>: the text before the first
  occurrence and the text after it.\<close>

definition split_once :: "char \<Rightarrow> string \<Rightarrow> string \<times> string" where
  "split_once c s = (takeWhile (\<lambda>x. x \<noteq> c) s, drop 1 (dropWhile (\<lambda>x. x \<noteq> c) s))"

text \<open>
  The characters that \<open>str.strip\<close> removes, that is, those for which \<open>str.isspace\<close>
  holds: among the code points below 256 these are the tab, the line feed, the vertical
  tab, the form feed, the carriage return, the four separators \<open>0x1C\<close> to \<open>0x1F\<close>, the
  space, the next-line character \<open>0x85\<close> and the no-break space \<open>0xA0\<close>.
\<close>

definition is_space :: "char \<Rightarrow> bool" where
  "is_space c \<longleftrightarrow> c \<in> set [CHR 0x20, CHR 0x09, CHR 0x0A, CHR 0x0B, CHR 0x0C, CHR 0x0D,
                              CHR 0x1C, CHR 0x1D, CHR 0x1E, CHR 0x1F, CHR 0x85, CHR 0xA0]"

definition strip :: "string \<Rightarrow> string" where
  "strip s = rev (dropWhile is_space (rev (dropWhile is_space s)))"

definition ljust :: "nat \<Rightarrow> string \<Rightarrow> string" where
  "ljust n s = s @ replicate (n - length s) CHR '' ''"

definition zfill :: "nat \<Rightarrow> string \<Rightarrow> string" where
  "zfill n s = replicate (n - length s) CHR ''0'' @ s"

definition digit_char :: "nat \<Rightarrow> char" where
  "digit_char d = char_of (48 + d)"

definition digit_val :: "char \<Rightarrow> nat" where
  "digit_val c = of_char c - 48"

text \<open>\<open>str(n)\<close> for a natural number.\<close>

fun str_nat :: "nat \<Rightarrow> string" where
  "str_nat n = (if n < 10 then [digit_char n] else str_nat (n div 10) @ [digit_char (n mod 10)])"

declare str_nat.simps [simp del]

text \<open>\<open>int(s)\<close> for a string of decimal digits.\<close>

definition int_of_digits :: "string \<Rightarrow> nat" where
  "int_of_digits s = foldl (\<lambda>acc c. 10 * acc + digit_val c) 0 s"

text \<open>
  A Python \<open>dict\<close> keeps its keys in insertion order; assigning to a key that is
  already present replaces the value and leaves the key where it is.  It is modelled as
  an association list.
\<close>

type_synonym ('k, 'v) dict = "('k \<times> 'v) list"

fun dict_set :: "'k \<Rightarrow> 'v \<Rightarrow> ('k, 'v) dict \<Rightarrow> ('k, 'v) dict" where
  "dict_set k v [] = [(k, v)]"
| "dict_set k v ((k', v') # d) = (if k' = k then (k, v) # d else (k', v') # dict_set k v d)"

definition dict_get :: "('k, 'v) dict \<Rightarrow> 'k \<Rightarrow> 'v option" where
  "dict_get d k = map_of d k"

definition keys :: "('k, 'v) dict \<Rightarrow> 'k list" where
  "keys d = map fst d"

section \<open>Exceptions, the outside world and the manager object\<close>

text \<open>
  Every exception that can travel through the program is a constructor.
  \<open>DNSConfigError\<close> and \<open>DockerError\<close> are the two classes the program declares;
  the others come from the Python runtime and the libraries it calls.
  \<open>SystemExit\<close> carries the status given to \<open>sys.exit\<close>.
\<close>

datatype exn =
    DNSConfigError string
  | DockerError string
  | ValueError string
  | KeyboardInterrupt
  | SystemExit nat
  | PermissionError string
  | OSError string
  | NotFound
  | APIError string
  | OtherException string

text \<open>\<open>str(e)\<close> of an exception, as the handlers print it.\<close>

fun str_exn :: "exn \<Rightarrow> string" where
  "str_exn (DNSConfigError m) = m"
| "str_exn (DockerError m) = m"
| "str_exn (ValueError m) = m"
| "str_exn KeyboardInterrupt = []"
| "str_exn (SystemExit n) = str_nat n"
| "str_exn (PermissionError m) = m"
| "str_exn (OSError m) = m"
| "str_exn NotFound = ''404 Client Error: Not Found''"
| "str_exn (APIError m) = m"
| "str_exn (OtherException m) = m"

text \<open>
  The outcomes of the external calls.  An HTTP request either delivers a response (a
  status code and a body) or raises a \<open>RequestException\<close>; the user may interrupt the
  program while it waits.
\<close>

datatype http_result =
    HttpResponse nat string
  | RequestException
  | HttpInterrupted

datatype cmd_result =
    CmdOk string
  | CalledProcessError string

datatype pull_outcome =
    PullOk
  | ImageNotFound
  | PullAPIError string
  | PullInterrupted

datatype os_outcome =
    OsOk
  | OsPermissionError string
  | OsOSError string
  | OsUnicodeEncodeError string

record datetime =
  year :: nat
  month :: nat
  day :: nat
  hour :: nat

text \<open>
  The environment fixes what each external call answers during one run: the HTTP
  endpoint, each shell command (by its command line), \<open>docker.from_env\<close>, the
  \<open>n\<close>-th call of \<open>images.pull\<close>, \<open>mkdir\<close>, \<open>write_text\<close> (by path: the
  exception it raises, if any, and what a failed write leaves in the file), the
  \<open>n\<close>-th reading of the clock, and whether the Docker API fails on \<open>get\<close>,
  \<open>remove\<close> or \<open>run\<close> for a reason of its own.
\<close>

record env =
  http_get :: http_result
  shell :: "string \<Rightarrow> cmd_result"
  from_env :: "string option"
  images_pull :: "nat \<Rightarrow> pull_outcome"
  mkdir_result :: os_outcome
  write_result :: "string \<Rightarrow> os_outcome"
  write_left :: "string \<Rightarrow> nat option"
  utcnow :: "nat \<Rightarrow> datetime"
  get_error :: "string option"
  remove_error :: "string option"
  run_error :: "string option"

record container =
  cname :: string
  cid :: nat
  cimage :: string
  running :: bool

text \<open>Everything the program does to the outside, in the order it does it.\<close>

datatype event =
    HttpGet string nat
  | Shell string
  | Stdout string
  | Stderr string
  | FromEnv
  | ImagesPull string
  | Mkdir string bool bool
  | WriteText string
  | ContainersGet string
  | ContainerRemove nat bool
  | ContainersRun string string

text \<open>
  The state threaded through the program: the fields of the \<open>DNSServerManager\<close>
  object (\<open>client\<close>, \<open>dns_records\<close>, \<open>public_ip\<close>) and the outside world it
  acts on (the files and the directories on disk, the containers of the Docker engine
  and the identifier the engine gives to the next container, and the trace of events).
  The root directory always exists and is not listed.
\<close>

record state =
  client :: bool
  dns_records :: "(string, (string, string) dict) dict"
  public_ip :: "string option"
  files :: "string \<rightharpoonup> string"
  dirs :: "string set"
  containers :: "container list"
  next_id :: nat
  trace :: "event list"

type_synonym 'a action = "state \<Rightarrow> (exn + 'a) \<times> state"

definition emit :: "event \<Rightarrow> state \<Rightarrow> state" where
  "emit e s = s\<lparr>trace := trace s @ [e]\<rparr>"

definition docker_image :: string where
  "docker_image = ''ubuntu/bind9:latest''"

definition volume_path :: string where
  "volume_path = ''/etc/bind''"


section \<open>The methods of DNSServerManager\<close>

definition run_command :: "env \<Rightarrow> string \<Rightarrow> string action" where
  "run_command e cmd s =
     (let s1 = emit (Shell cmd) s in
      case shell e cmd of
        CmdOk out \<Rightarrow> (Inr (strip out), s1)
      | CalledProcessError err \<Rightarrow>
          (Inl (DNSConfigError (''Command failed: '' @ cmd @ NL @ ''Error: '' @ err)), s1))"

definition ip_fallback_cmd :: string where
  \<open>ip_fallback_cmd = ''curl -4 ifconfig.co 2>/dev/null || hostname -I | awk '' @ [CHR 0x27] @ ''{print $1}'' @ [CHR 0x27]\<close>

definition get_public_ip :: "env \<Rightarrow> string action" where
  "get_public_ip e s =
     (let s1 = emit (HttpGet ''https://api.ipify.org'' 3) s in
      case http_get e of
        HttpResponse status body \<Rightarrow> (Inr body, s1)
      | HttpInterrupted \<Rightarrow> (Inl KeyboardInterrupt, s1)
      | RequestException \<Rightarrow>
          (case run_command e ip_fallback_cmd s1 of
             (Inr out, s2) \<Rightarrow> (Inr out, s2)
           | (Inl (DNSConfigError m), s2) \<Rightarrow>
               (Inl (DNSConfigError ''Failed to determine public IP address''), s2)
           | (Inl x, s2) \<Rightarrow> (Inl x, s2)))"

definition setup_docker :: "env \<Rightarrow> unit action" where
  "setup_docker e s =
     (case run_command e ''docker ps'' s of
        (Inr out, s1) \<Rightarrow> (Inr (), s1)
      | (Inl (DNSConfigError m0), s1) \<Rightarrow>
          (let s2 = emit (Stdout ''Installing Docker...'') s1 in
           case run_command e ''curl -fsSL https://get.docker.com | sh'' s2 of
             (Inl (DNSConfigError m), s3) \<Rightarrow>
               (Inl (DockerError (''Docker installation failed: '' @ m)), s3)
           | (Inl x, s3) \<Rightarrow> (Inl x, s3)
           | (Inr out1, s3) \<Rightarrow>
               (case run_command e ''systemctl enable --now docker'' s3 of
                  (Inl (DNSConfigError m), s4) \<Rightarrow>
                    (Inl (DockerError (''Docker installation failed: '' @ m)), s4)
                | (Inl x, s4) \<Rightarrow> (Inl x, s4)
                | (Inr out2, s4) \<Rightarrow> (Inr (), s4)))
      | (Inl x, s1) \<Rightarrow> (Inl x, s1))"

definition max_retries :: nat where
  "max_retries = 3"

text \<open>The notice printed between two attempts.\<close>

definition retry_notice :: "nat \<Rightarrow> string" where
  "retry_notice attempt =
     ''Retrying image pull ('' @ str_nat (attempt + 1) @ ''/'' @ str_nat max_retries @ '')...''"

text \<open>
  The loop \<open>for attempt in range(max_retries)\<close> of \<open>_pull_bind_image\<close>, entered at
  \<open>attempt\<close>.
\<close>

function pull_from :: "env \<Rightarrow> nat \<Rightarrow> unit action" where
  "pull_from e attempt s =
     (if max_retries \<le> attempt then (Inr (), s)
      else
        (let s1 = emit (ImagesPull docker_image) s in
         case images_pull e attempt of
           PullOk \<Rightarrow> (Inr (), s1)
         | ImageNotFound \<Rightarrow> (Inl (DockerError (''Image '' @ docker_image @ '' not found'')), s1)
         | PullInterrupted \<Rightarrow> (Inl KeyboardInterrupt, s1)
         | PullAPIError m \<Rightarrow>
             (if attempt = max_retries - 1
              then (Inl (DockerError (''Failed to pull image: '' @ m)), s1)
              else pull_from e (Suc attempt) (emit (Stdout (retry_notice attempt)) s1))))"
  by pat_completeness auto
termination
  by (relation "measure (\<lambda>(e, attempt, s). max_retries - attempt)") auto

declare pull_from.simps [simp del]

definition pull_bind_image :: "env \<Rightarrow> unit action" where
  "pull_bind_image e s = pull_from e 0 s"

text \<open>\<open>_generate_zone_entries\<close>: one stanza per key of \<open>dns_records\<close>.\<close>

definition zone_entry :: "string \<Rightarrow> string" where
  \<open>zone_entry domain =
     ''zone "'' @ domain @ ''" { type master; file "/etc/bind/db.'' @ domain @ ''"; };''\<close>

definition generate_zone_entries :: "state \<Rightarrow> string" where
  "generate_zone_entries s = join NL (map zone_entry (keys (dns_records s)))"

text \<open>
  \<open>_get_serial\<close>: \<open>strftime("%Y%m%d%H")\<close> prints the year in decimal and the month,
  the day and the hour on two digits each; \<open>int\<close> reads the digits back.
\<close>

definition strftime_YmdH :: "datetime \<Rightarrow> string" where
  "strftime_YmdH now =
     str_nat (year now) @ zfill 2 (str_nat (month now)) @ zfill 2 (str_nat (day now))
       @ zfill 2 (str_nat (hour now))"

definition get_serial :: "datetime \<Rightarrow> nat" where
  "get_serial now = int_of_digits (strftime_YmdH now)"

text \<open>One line of the record section of a zone file.\<close>

definition record_line :: "string \<times> string \<Rightarrow> string" where
  "record_line p = (case p of (record, ip) \<Rightarrow> ljust 30 record @ '' IN A '' @ ip)"

text \<open>\<open>str(self.public_ip)\<close> inside an f-string: \<open>None\<close> prints as its name.\<close>

definition str_public_ip :: "state \<Rightarrow> string" where
  "str_public_ip s = (case public_ip s of None \<Rightarrow> ''None'' | Some ip \<Rightarrow> ip)"

text \<open>The part of the zone-file template above the record lines.\<close>

definition zone_header :: "datetime \<Rightarrow> string \<Rightarrow> state \<Rightarrow> string" where
  "zone_header now domain s =
     ''; Zone file for '' @ domain @ NL
     @ ''$TTL 86400'' @ NL
     @ ''@ IN SOA ns.'' @ domain @ ''. admin.'' @ domain @ ''. ('' @ NL
     @ ''    '' @ str_nat (get_serial now) @ NL
     @ ''    3600'' @ NL
     @ ''    900'' @ NL
     @ ''    604800'' @ NL
     @ ''    86400 )'' @ NL
     @ NL
     @ ''@       IN NS  ns.'' @ domain @ ''.'' @ NL
     @ ''ns      IN A   '' @ str_public_ip s @ NL
     @ NL"

text \<open>
  \<open>_generate_zone_file\<close>, reading the clock as \<open>now\<close>.  Looking up a domain that
  is not a key of \<open>dns_records\<close> raises \<open>KeyError\<close>.
\<close>

definition generate_zone_file :: "datetime \<Rightarrow> string \<Rightarrow> state \<Rightarrow> exn + string" where
  "generate_zone_file now domain s =
     (case dict_get (dns_records s) domain of
        None \<Rightarrow> Inl (OtherException ''KeyError'')
      | Some recs \<Rightarrow>
          (let records = join NL (map record_line recs) in
           Inr (zone_header now domain s @ records @ NL)))"

definition named_conf :: "state \<Rightarrow> string" where
  \<open>named_conf s =
     NL @ ''options {'' @ NL
     @ ''    directory "/etc/bind";'' @ NL
     @ ''    listen-on port 53 { any; };'' @ NL
     @ ''    allow-query { any; };'' @ NL
     @ ''    recursion no;'' @ NL
     @ ''};'' @ NL
     @ NL
     @ generate_zone_entries s @ NL
     @ ''            ''\<close>

text \<open>\<open>config_dir / name\<close> for a relative \<open>name\<close>.\<close>

definition path_join :: "string \<Rightarrow> string \<Rightarrow> string" where
  "path_join dir name = dir @ ''/'' @ name"

text \<open>The paths of the files that \<open>_generate_zone_files\<close> writes.\<close>

definition named_conf_path :: string where
  "named_conf_path = path_join volume_path ''named.conf''"

definition zone_path :: "string \<Rightarrow> string" where
  "zone_path domain = path_join volume_path (''db.'' @ domain)"

text \<open>
  The exception that a failed file operation raises.  \<open>PermissionError\<close> and the other
  errors of the operating system are \<open>OSError\<close>s; \<open>UnicodeEncodeError\<close> is a
  \<open>ValueError\<close>.
\<close>

fun os_exn :: "os_outcome \<Rightarrow> exn" where
  "os_exn (OsPermissionError m) = PermissionError m"
| "os_exn (OsOSError m) = OSError m"
| "os_exn (OsUnicodeEncodeError m) = ValueError m"
| "os_exn OsOk = OtherException []"

text \<open>The directories above an absolute path, the root apart: for \<open>/etc/bind\<close> this is
  \<open>/etc\<close>.\<close>

definition ancestors :: "string \<Rightarrow> string list" where
  "ancestors path =
     (let parts = filter (\<lambda>c. c \<noteq> []) (split CHR ''/'' path) in
      map (\<lambda>n. concat (map (\<lambda>c. ''/'' @ c) (take n parts))) [1..<length parts])"

text \<open>
  \<open>Path.mkdir(parents, exist_ok)\<close>.  A directory that exists is an error unless
  \<open>exist_ok\<close>; a missing parent is an error unless \<open>parents\<close>, in which case the
  parents are created too.  The operating system can refuse the operation for a reason
  of its own.
\<close>

definition mkdir :: "env \<Rightarrow> string \<Rightarrow> bool \<Rightarrow> bool \<Rightarrow> unit action" where
  "mkdir e path parents exist_ok s =
     (let s1 = emit (Mkdir path parents exist_ok) s in
      case mkdir_result e of
        OsOk \<Rightarrow>
          (if path \<in> dirs s1 then
             (if exist_ok then (Inr (), s1)
              else (Inl (OSError ''[Errno 17] File exists''), s1))
           else if set (ancestors path) \<subseteq> dirs s1 then
             (Inr (), s1\<lparr>dirs := insert path (dirs s1)\<rparr>)
           else if parents then
             (Inr (), s1\<lparr>dirs := insert path (set (ancestors path) \<union> dirs s1)\<rparr>)
           else (Inl (OSError ''[Errno 2] No such file or directory''), s1))
      | failure \<Rightarrow> (Inl (os_exn failure), s1))"

text \<open>
  \<open>Path.write_text\<close> opens the file for writing, which empties it, encodes the
  content and writes it.  A write that succeeds replaces the file's content.  A content
  that cannot be encoded raises after the file was opened and before anything is
  written, so the file is left empty.  A write that the operating system refuses either
  failed to open the file, which is then as it was (\<open>write_left\<close> is \<open>None\<close>), or
  failed after the file was opened, which then holds the first \<open>n\<close> characters of the
  content, possibly none (\<open>write_left\<close> is \<open>Some n\<close>).
\<close>

definition write_text :: "env \<Rightarrow> string \<Rightarrow> string \<Rightarrow> unit action" where
  "write_text e path content s =
     (let s1 = emit (WriteText path) s in
      case write_result e path of
        OsOk \<Rightarrow> (Inr (), s1\<lparr>files := (files s1)(path \<mapsto> content)\<rparr>)
      | OsUnicodeEncodeError m \<Rightarrow> (Inl (ValueError m), s1\<lparr>files := (files s1)(path \<mapsto> [])\<rparr>)
      | failure \<Rightarrow>
          (Inl (os_exn failure),
           (case write_left e path of
              None \<Rightarrow> s1
            | Some n \<Rightarrow> s1\<lparr>files := (files s1)(path \<mapsto> take n content)\<rparr>)))"

text \<open>
  The loop \<open>for domain in self.config['dns_records']\<close> of \<open>_generate_zone_files\<close>;
  \<open>i\<close> counts the readings of the clock.
\<close>

fun write_zones :: "env \<Rightarrow> nat \<Rightarrow> string list \<Rightarrow> unit action" where
  "write_zones e i [] s = (Inr (), s)"
| "write_zones e i (domain # ds) s =
     (case generate_zone_file (utcnow e i) domain s of
        Inl x \<Rightarrow> (Inl x, s)
      | Inr zone_content \<Rightarrow>
          (case write_text e (zone_path domain) zone_content s of
             (Inl x, s1) \<Rightarrow> (Inl x, s1)
           | (Inr u, s1) \<Rightarrow> write_zones e (Suc i) ds s1))"

text \<open>The body of the \<open>try\<close> block of \<open>_generate_zone_files\<close>.\<close>

definition generate_zone_files_body :: "env \<Rightarrow> unit action" where
  "generate_zone_files_body e s =
     (case mkdir e volume_path True True s of
        (Inl x, s1) \<Rightarrow> (Inl x, s1)
      | (Inr u, s1) \<Rightarrow>
          (case write_text e named_conf_path (named_conf s1) s1 of
             (Inl x, s2) \<Rightarrow> (Inl x, s2)
           | (Inr u, s2) \<Rightarrow> write_zones e 0 (keys (dns_records s2)) s2))"

text \<open>\<open>_generate_zone_files\<close>: \<open>PermissionError\<close> is handled before its base class
  \<open>OSError\<close>.\<close>

definition generate_zone_files :: "env \<Rightarrow> unit action" where
  "generate_zone_files e s =
     (case generate_zone_files_body e s of
        (Inl (PermissionError m), s1) \<Rightarrow> (Inl (DNSConfigError (''Permission denied: '' @ m)), s1)
      | (Inl (OSError m), s1) \<Rightarrow> (Inl (DNSConfigError (''File system error: '' @ m)), s1)
      | r \<Rightarrow> r)"

subsection \<open>The Docker engine\<close>

text \<open>
  The engine keeps a list of containers.  \<open>containers.get\<close> answers the container of
  that name or raises \<open>NotFound\<close>; \<open>remove(force=True)\<close> deletes the container
  whatever its running state; \<open>containers.run\<close> refuses a name that is taken and
  otherwise adds a running container with a fresh identifier.  Each call can also fail
  with an API error of the engine's own.
\<close>

definition reserved_name :: string where
  "reserved_name = ''dns-server''"

definition containers_get :: "env \<Rightarrow> string \<Rightarrow> container action" where
  "containers_get e name s =
     (let s1 = emit (ContainersGet name) s in
      case get_error e of
        Some m \<Rightarrow> (Inl (APIError m), s1)
      | None \<Rightarrow>
          (case find (\<lambda>c. cname c = name) (containers s1) of
             None \<Rightarrow> (Inl NotFound, s1)
           | Some c \<Rightarrow> (Inr c, s1)))"

definition container_remove :: "env \<Rightarrow> container \<Rightarrow> bool \<Rightarrow> unit action" where
  "container_remove e c force s =
     (let s1 = emit (ContainerRemove (cid c) force) s in
      case remove_error e of
        Some m \<Rightarrow> (Inl (APIError m), s1)
      | None \<Rightarrow>
          (if running c \<and> \<not> force
           then (Inl (APIError ''409 Conflict: cannot remove a running container''), s1)
           else (Inr (), s1\<lparr>containers := filter (\<lambda>c'. cid c' \<noteq> cid c) (containers s1)\<rparr>)))"

definition containers_run :: "env \<Rightarrow> string \<Rightarrow> string \<Rightarrow> unit action" where
  "containers_run e img name s =
     (let s1 = emit (ContainersRun img name) s in
      case run_error e of
        Some m \<Rightarrow> (Inl (APIError m), s1)
      | None \<Rightarrow>
          (if \<exists>c \<in> set (containers s1). cname c = name
           then (Inl (APIError ''409 Conflict: the container name is already in use''), s1)
           else (Inr (), s1\<lparr>containers := containers s1 @
                                 [\<lparr>cname = name, cid = next_id s1, cimage = img, running = True\<rparr>],
                               next_id := Suc (next_id s1)\<rparr>)))"

text \<open>\<open>docker.errors.NotFound\<close> is a subclass of \<open>docker.errors.APIError\<close>.\<close>

fun is_APIError :: "exn \<Rightarrow> bool" where
  "is_APIError NotFound = True"
| "is_APIError (APIError m) = True"
| "is_APIError x = False"

text \<open>The inner \<open>try\<close> of \<open>_start_container\<close>: cleanup of an existing container.\<close>

definition cleanup_existing :: "env \<Rightarrow> unit action" where
  "cleanup_existing e s =
     (case containers_get e reserved_name s of
        (Inl NotFound, s1) \<Rightarrow> (Inr (), s1)
      | (Inl x, s1) \<Rightarrow> (Inl x, s1)
      | (Inr old_container, s1) \<Rightarrow>
          (case container_remove e old_container True s1 of
             (Inl NotFound, s2) \<Rightarrow> (Inr (), s2)
           | r \<Rightarrow> r))"

definition start_container_body :: "env \<Rightarrow> unit action" where
  "start_container_body e s =
     (case cleanup_existing e s of
        (Inl x, s1) \<Rightarrow> (Inl x, s1)
      | (Inr u, s1) \<Rightarrow> containers_run e docker_image reserved_name s1)"

definition start_container :: "env \<Rightarrow> unit action" where
  "start_container e s =
     (case start_container_body e s of
        (Inl x, s1) \<Rightarrow>
          (if is_APIError x then (Inl (DockerError (''Docker API error: '' @ str_exn x)), s1)
           else (Inl x, s1))
      | r \<Rightarrow> r)"

subsection \<open>The entry points\<close>

text \<open>The apex domain of a record: \<open>".".join(record.split(".")[-2:])\<close>.\<close>

definition apex :: "string \<Rightarrow> string" where
  "apex record = join ''.'' (last_two (split CHR ''.'' record))"

text \<open>The loop of \<open>start\<close> that organizes the records by domain.\<close>

definition organize_step ::
    "(string, (string, string) dict) dict \<Rightarrow> string \<times> string \<Rightarrow> (string, (string, string) dict) dict"
where
  "organize_step d p =
     (case p of (record, ip) \<Rightarrow>
        (let domain = apex record in
         dict_set domain
           (dict_set record ip (case dict_get d domain of None \<Rightarrow> [] | Some recs \<Rightarrow> recs)) d))"

definition organize ::
    "(string, string) dict \<Rightarrow> (string, (string, string) dict) dict
       \<Rightarrow> (string, (string, string) dict) dict"
where
  "organize records d = foldl organize_step d records"

definition docker_from_env :: "env \<Rightarrow> unit action" where
  "docker_from_env e s =
     (let s1 = emit FromEnv s in
      case from_env e of
        Some m \<Rightarrow> (Inl (OtherException m), s1)
      | None \<Rightarrow> (Inr (), s1\<lparr>client := True\<rparr>))"

text \<open>The body of the \<open>try\<close> block of \<open>start\<close>.\<close>

definition start_body :: "env \<Rightarrow> (string, string) dict \<Rightarrow> string action" where
  "start_body e records s =
     (case get_public_ip e s of
        (Inl x, s1) \<Rightarrow> (Inl x, s1)
      | (Inr ip, s1) \<Rightarrow>
          (let s2 = emit (Stdout (''Public IP detected: '' @ ip)) (s1\<lparr>public_ip := Some ip\<rparr>) in
           case setup_docker e s2 of
             (Inl x, s3) \<Rightarrow> (Inl x, s3)
           | (Inr u, s3) \<Rightarrow>
               (case docker_from_env e s3 of
                  (Inl x, s4) \<Rightarrow> (Inl x, s4)
                | (Inr u, s4) \<Rightarrow>
                    (case pull_bind_image e s4 of
                       (Inl x, s5) \<Rightarrow> (Inl x, s5)
                     | (Inr u, s5) \<Rightarrow>
                         (let s6 = s5\<lparr>dns_records := organize records (dns_records s5)\<rparr> in
                          case generate_zone_files e s6 of
                            (Inl x, s7) \<Rightarrow> (Inl x, s7)
                          | (Inr u, s7) \<Rightarrow>
                              (case start_container e s7 of
                                 (Inl x, s8) \<Rightarrow> (Inl x, s8)
                               | (Inr u, s8) \<Rightarrow> (Inr (str_public_ip s8), s8)))))))"




text \<open>The loop of \<open>main\<close> over \<open>args.records\<close>.\<close>

fun parse_records :: "string list \<Rightarrow> (string, string) dict \<Rightarrow> exn + (string, string) dict" where
  "parse_records [] records = Inr records"
| "parse_records (entry # entries) records =
     (if CHR ''='' \<notin> set entry then Inl (ValueError (''Invalid record format: '' @ entry))
      else (case split_once CHR ''='' entry of
              (host, ip) \<Rightarrow> parse_records entries (dict_set (strip host) (strip ip) records)))"



section \<open>Auxiliary definitions for the statements\<close>

text \<open>
  The events of a pull that needs \<open>k\<close> retries: \<open>k\<close> times an attempt followed by
  the notice, then the last attempt.
\<close>

definition pull_events :: "nat \<Rightarrow> event list" where
  "pull_events k =
     concat (map (\<lambda>i. [ImagesPull docker_image, Stdout (retry_notice i)]) [0..<k])
       @ [ImagesPull docker_image]"

text \<open>A machine with nothing on it: no files, no containers, an empty trace.\<close>

definition state0 :: state where
  "state0 = \<lparr>client = False, dns_records = [], public_ip = None, files = Map.empty,
     dirs = {}, containers = [], next_id = 0, trace = []\<rparr>"

definition noon :: datetime where
  "noon = \<lparr>year = 2024, month = 3, day = 7, hour = 12\<rparr>"

text \<open>An environment where the first two pulls fail with a transient API error.\<close>

definition env_retry :: env where
  "env_retry = \<lparr>http_get = HttpResponse 200 ''203.0.113.9'', shell = (\<lambda>c. CmdOk []),
     from_env = None,
     images_pull = (\<lambda>n. if n < 2 then PullAPIError ''500 Server Error'' else PullOk),
     mkdir_result = OsOk, write_result = (\<lambda>p. OsOk), write_left = (\<lambda>p. None),
     utcnow = (\<lambda>n. noon),
     get_error = None, remove_error = None, run_error = None\<rparr>"

text \<open>
  Environments for the public-IP lookup: the endpoint answers with a server error; the
  request and the shell command fail.
\<close>

definition env_http_500 :: env where
  "env_http_500 = env_retry\<lparr>http_get := HttpResponse 500 ''Internal Server Error'',
     shell := (\<lambda>c. CmdOk ''10.0.0.5'')\<rparr>"


text \<open>
  A machine where a stopped container of the reserved name is left from an earlier run,
  beside a container of another name.
\<close>

definition stale_container :: container where
  "stale_container = \<lparr>cname = ''dns-server'', cid = 7, cimage = ''ubuntu/bind9:latest'',
     running = False\<rparr>"

definition other_container :: container where
  "other_container = \<lparr>cname = ''web'', cid = 3, cimage = ''nginx:latest'', running = True\<rparr>"

definition state_stale :: state where
  "state_stale = state0\<lparr>containers := [other_container, stale_container], next_id := 8\<rparr>"

text \<open>The container that \<open>_start_container\<close> launches on a machine in state \<open>s\<close>.\<close>

definition launched :: "state \<Rightarrow> container" where
  "launched s = \<lparr>cname = reserved_name, cid = next_id s, cimage = docker_image, running = True\<rparr>"

text \<open>The text of the zone file of a domain that is a key of \<open>dns_records\<close>.\<close>

definition zone_content :: "datetime \<Rightarrow> string \<Rightarrow> state \<Rightarrow> string" where
  "zone_content now domain s =
     (case generate_zone_file now domain s of Inr z \<Rightarrow> z | Inl x \<Rightarrow> [])"

text \<open>
  A model with two apex domains.
\<close>

definition state_two_zones :: state where
  "state_two_zones = state0\<lparr>public_ip := Some ''203.0.113.9'',
     dns_records := [(''example.com'', [(''a.example.com'', ''1.1.1.1'')]),
                     (''mistral.ai'', [(''chat.mistral.ai'', ''198.255.15.6'')])]\<rparr>"

text \<open>The fields of a line of a zone file: the maximal runs of characters other than the
  space.\<close>

definition fields :: "string \<Rightarrow> string list" where
  "fields line = filter (\<lambda>w. w \<noteq> []) (split CHR '' '' line)"

text \<open>The hostname and the address that \<open>main\<close> reads from an entry \<open>hostname=ip\<close>.\<close>

definition entry_host :: "string \<Rightarrow> string" where
  "entry_host entry = strip (fst (split_once CHR ''='' entry))"

definition entry_ip :: "string \<Rightarrow> string" where
  "entry_ip entry = strip (snd (split_once CHR ''='' entry))"

text \<open>The records of an apex domain among the input records, in input order.\<close>

definition apex_records :: "string \<Rightarrow> (string, string) dict \<Rightarrow> (string, string) dict" where
  "apex_records domain records = filter (\<lambda>p. apex (fst p) = domain) records"

text \<open>The arguments of a run that names one hostname twice.\<close>

definition args_twice :: "string list" where
  "args_twice = [''a.example.com=1.1.1.1'', ''b.example.com=3.3.3.3'', ''a.example.com=2.2.2.2'']"

definition state_twice :: state where
  "state_twice = state0\<lparr>public_ip := Some ''203.0.113.9'',
     dns_records := organize [(''a.example.com'', ''2.2.2.2''), (''b.example.com'', ''3.3.3.3'')] []\<rparr>"

text \<open>
  The stage of the run that an external call belongs to: 1 for the discovery of the
  public IP, 2 for the check (and installation) of the container runtime and the
  connection to it, 3 for the image pull, 4 for the files, 5 for the replacement and the
  launch of the container.  Console output belongs to no stage.
\<close>

fun is_print :: "event \<Rightarrow> bool" where
  "is_print (Stdout m) = True"
| "is_print (Stderr m) = True"
| "is_print ev = False"

fun stage :: "event \<Rightarrow> nat" where
  "stage (HttpGet url timeout) = 1"
| "stage (Shell cmd) = (if cmd = ip_fallback_cmd then 1 else 2)"
| "stage FromEnv = 2"
| "stage (ImagesPull img) = 3"
| "stage (Mkdir path parents exist_ok) = 4"
| "stage (WriteText path) = 4"
| "stage (ContainersGet name) = 5"
| "stage (ContainerRemove i force) = 5"
| "stage (ContainersRun img name) = 5"
| "stage (Stdout m) = 0"
| "stage (Stderr m) = 0"

definition calls :: "event list \<Rightarrow> event list" where
  "calls evs = filter (\<lambda>ev. \<not> is_print ev) evs"

text \<open>
  A sequence of stages run strictly in order, where the first failure ends the run: the
  later stages are not entered.
\<close>

fun run_stages :: "(unit action) list \<Rightarrow> unit action" where
  "run_stages [] s = (Inr (), s)"
| "run_stages (f # fs) s =
     (case f s of
        (Inl x, s1) \<Rightarrow> (Inl x, s1)
      | (Inr u, s1) \<Rightarrow> run_stages fs s1)"

text \<open>The stages of \<open>start\<close>, in the order of the source.\<close>

definition resolve_ip :: "env \<Rightarrow> unit action" where
  "resolve_ip e s =
     (case get_public_ip e s of
        (Inl x, s1) \<Rightarrow> (Inl x, s1)
      | (Inr ip, s1) \<Rightarrow>
          (Inr (), emit (Stdout (''Public IP detected: '' @ ip)) (s1\<lparr>public_ip := Some ip\<rparr>)))"

definition build_model :: "(string, string) dict \<Rightarrow> unit action" where
  "build_model records s = (Inr (), s\<lparr>dns_records := organize records (dns_records s)\<rparr>)"

definition start_stages :: "env \<Rightarrow> (string, string) dict \<Rightarrow> (unit action) list" where
  "start_stages e records =
     [resolve_ip e, setup_docker e, docker_from_env e, pull_bind_image e,
      build_model records, generate_zone_files e, start_container e]"

text \<open>An environment in which every external step of a run succeeds at once.\<close>

definition benign :: "env \<Rightarrow> bool" where
  "benign e \<longleftrightarrow>
     (\<exists>status body. http_get e = HttpResponse status body)
     \<and> (\<exists>out. shell e ''docker ps'' = CmdOk out)
     \<and> from_env e = None
     \<and> images_pull e 0 = PullOk
     \<and> mkdir_result e = OsOk
     \<and> (\<forall>p. write_result e p = OsOk)
     \<and> get_error e = None \<and> remove_error e = None \<and> run_error e = None"

text \<open>Further environments: the image does not exist; the user interrupts the lookup
  of the public IP; the connection to the Docker daemon fails.\<close>

definition env_notfound :: env where
  "env_notfound = env_retry\<lparr>images_pull := (\<lambda>n. ImageNotFound)\<rparr>"



definition env_ok :: env where
  "env_ok = env_retry\<lparr>images_pull := (\<lambda>n. PullOk)\<rparr>"

text \<open>
  What a stage may do: \<open>emits k f\<close> says that every external call of \<open>f\<close> belongs to
  stage \<open>k\<close>; \<open>raises K f\<close> says that every exception leaving \<open>f\<close> satisfies \<open>K\<close>.
\<close>

definition emits :: "nat \<Rightarrow> 'a action \<Rightarrow> bool" where
  "emits k f \<longleftrightarrow>
     (\<forall>s r s'. f s = (r, s') \<longrightarrow>
        (\<exists>evs. trace s' = trace s @ evs \<and> (\<forall>ev \<in> set (calls evs). stage ev = k)))"


text \<open>The exceptions that leave the body of \<open>start\<close>.\<close>

fun start_exn :: "exn \<Rightarrow> bool" where
  "start_exn (DNSConfigError m) = True"
| "start_exn (DockerError m) = True"
| "start_exn KeyboardInterrupt = True"
| "start_exn (OtherException m) = True"
| "start_exn (ValueError m) = True"
| "start_exn x = False"

text \<open>The files, the model and the containers are the same in two states.\<close>

definition unchanged :: "state \<Rightarrow> state \<Rightarrow> bool" where
  "unchanged s s' \<longleftrightarrow>
     files s' = files s \<and> dns_records s' = dns_records s
     \<and> containers s' = containers s \<and> next_id s' = next_id s"

text \<open>The record map of a run for one hostname, and the states that a run reaches in
  \<open>env_notfound\<close> before and after the image pull.\<close>

definition records_one :: "(string, string) dict" where
  "records_one = [(''chat.mistral.ai'', ''198.255.15.6'')]"

definition state_connected :: state where
  "state_connected = state0\<lparr>public_ip := Some ''203.0.113.9'', client := True,
     trace := [HttpGet ''https://api.ipify.org'' 3, Stdout ''Public IP detected: 203.0.113.9'',
               Shell ''docker ps'', FromEnv]\<rparr>"

definition state_pull_failed :: state where
  "state_pull_failed = state0\<lparr>public_ip := Some ''203.0.113.9'', client := True,
     trace := [HttpGet ''https://api.ipify.org'' 3, Stdout ''Public IP detected: 203.0.113.9'',
               Shell ''docker ps'', FromEnv, ImagesPull ''ubuntu/bind9:latest'']\<rparr>"


text \<open>
  What a failed write of \<open>content\<close> to \<open>path\<close> leaves in a file that held \<open>old\<close>
  (\<open>None\<close>: no such file).
\<close>

definition after_failed_write :: "env \<Rightarrow> string \<Rightarrow> string \<Rightarrow> string option \<Rightarrow> string option" where
  "after_failed_write e path content old =
     (case write_result e path of
        OsUnicodeEncodeError m \<Rightarrow> Some []
      | failure \<Rightarrow> (case write_left e path of None \<Rightarrow> old | Some n \<Rightarrow> Some (take n content)))"

text \<open>The directories after \<open>mkdir(parents=True, exist_ok=True)\<close> of \<open>path\<close> succeeded.\<close>

definition dirs_with :: "string \<Rightarrow> string set \<Rightarrow> string set" where
  "dirs_with path ds = (if path \<in> ds then ds else insert path (set (ancestors path) \<union> ds))"



text \<open>An argument whose hostname is followed by a no-break space.\<close>

definition entry_nbsp :: string where
  "entry_nbsp = ''a.example.com'' @ [CHR 0xA0] @ ''=2.2.2.2''"

section \<open>Properties\<close>

subsection \<open>Basic facts\<close>

lemma emit_trace: "emit ev s = s\<lparr>trace := trace s @ [ev]\<rparr>"
  by (simp add: emit_def)

subsection \<open>Image pull with retries\<close>

lemma pull_from_skip:
  assumes "a \<le> k" and "k < max_retries"
    and "\<forall>j. a \<le> j \<and> j < k \<longrightarrow> (\<exists>m. images_pull e j = PullAPIError m)"
  shows "pull_from e a s =
           pull_from e k (s\<lparr>trace := trace s
              @ concat (map (\<lambda>i. [ImagesPull docker_image, Stdout (retry_notice i)]) [a..<k])\<rparr>)"
  using assms
proof (induction k rule: dec_induct)
  case base
  then show ?case by simp
next
  case (step n)
  from step.prems step.hyps obtain m where m: "images_pull e n = PullAPIError m"
    by auto
  have n: "n < max_retries" "n \<noteq> max_retries - 1"
    using step.prems by auto
  have "pull_from e a s =
          pull_from e n (s\<lparr>trace := trace s
              @ concat (map (\<lambda>i. [ImagesPull docker_image, Stdout (retry_notice i)]) [a..<n])\<rparr>)"
    using step by auto
  also have "\<dots> = pull_from e (Suc n) (s\<lparr>trace := trace s
              @ concat (map (\<lambda>i. [ImagesPull docker_image, Stdout (retry_notice i)]) [a..<Suc n])\<rparr>)"
    using n m step.hyps by (subst pull_from.simps) (simp add: emit_def)
  finally show ?case .
qed

lemma pull_from_last:
  assumes "k < max_retries"
  shows "pull_from e k (s\<lparr>trace := trace s
              @ concat (map (\<lambda>i. [ImagesPull docker_image, Stdout (retry_notice i)]) [0..<k])\<rparr>) =
      (case images_pull e k of
         PullOk \<Rightarrow> (Inr (), s\<lparr>trace := trace s @ pull_events k\<rparr>)
       | ImageNotFound \<Rightarrow> (Inl (DockerError (''Image '' @ docker_image @ '' not found'')),
                            s\<lparr>trace := trace s @ pull_events k\<rparr>)
       | PullInterrupted \<Rightarrow> (Inl KeyboardInterrupt, s\<lparr>trace := trace s @ pull_events k\<rparr>)
       | PullAPIError m \<Rightarrow>
           (if k = max_retries - 1
            then (Inl (DockerError (''Failed to pull image: '' @ m)),
                  s\<lparr>trace := trace s @ pull_events k\<rparr>)
            else pull_from e (Suc k) (s\<lparr>trace := trace s
              @ concat (map (\<lambda>i. [ImagesPull docker_image, Stdout (retry_notice i)]) [0..<Suc k])\<rparr>)))"
  using assms
  by (subst pull_from.simps) (simp add: emit_def pull_events_def split: pull_outcome.splits)

lemma pull_events_count:
  "length (filter (\<lambda>ev. ev = ImagesPull docker_image) (pull_events k)) = k + 1"
proof -
  have "length (filter (\<lambda>ev. ev = ImagesPull docker_image)
          (concat (map (\<lambda>i. [ImagesPull docker_image, Stdout (retry_notice i)]) [0..<n]))) = n" for n
    by (induction n) simp_all
  then show ?thesis by (simp add: pull_events_def)
qed

text \<open>
  Claim C5.  Let attempt \<open>k\<close> (counted from 0, \<open>k < 3\<close>) be the first attempt that does
  not end in a transient API error.  Then exactly \<open>k + 1\<close> attempts are made, at most
  three, each failed one followed by the console notice and nothing else.  If attempt
  \<open>k\<close> succeeds the pull returns normally; if the image is definitely not found it raises
  the Docker error at once, on whatever attempt; and an API error on the third attempt
  raises the Docker error instead of retrying.
\<close>

theorem pull_bind_image_retries:
  assumes "k < max_retries"
    and "\<forall>j<k. \<exists>m. images_pull e j = PullAPIError m"
  shows "max_retries = 3
    \<and> length (filter (\<lambda>ev. ev = ImagesPull docker_image) (pull_events k)) = k + 1
    \<and> (images_pull e k = PullOk \<longrightarrow>
          pull_bind_image e s = (Inr (), s\<lparr>trace := trace s @ pull_events k\<rparr>))
    \<and> (images_pull e k = ImageNotFound \<longrightarrow>
          pull_bind_image e s =
            (Inl (DockerError (''Image '' @ docker_image @ '' not found'')),
             s\<lparr>trace := trace s @ pull_events k\<rparr>))
    \<and> (images_pull e k = PullInterrupted \<longrightarrow>
          pull_bind_image e s = (Inl KeyboardInterrupt, s\<lparr>trace := trace s @ pull_events k\<rparr>))
    \<and> (\<forall>m. images_pull e k = PullAPIError m \<and> k = max_retries - 1 \<longrightarrow>
          pull_bind_image e s =
            (Inl (DockerError (''Failed to pull image: '' @ m)),
             s\<lparr>trace := trace s @ pull_events k\<rparr>))"
proof -
  have skip: "pull_bind_image e s = pull_from e k (s\<lparr>trace := trace s
              @ concat (map (\<lambda>i. [ImagesPull docker_image, Stdout (retry_notice i)]) [0..<k])\<rparr>)"
    unfolding pull_bind_image_def using assms by (intro pull_from_skip) auto
  have m3: "max_retries = 3" by (simp add: max_retries_def)
  show ?thesis
    unfolding skip pull_from_last [OF assms(1)] using pull_events_count [of k] m3 by auto
qed

theorem pull_bind_image_retries_witness:
  "(2::nat) < max_retries
   \<and> images_pull env_retry 0 = PullAPIError ''500 Server Error''
   \<and> images_pull env_retry 1 = PullAPIError ''500 Server Error''
   \<and> images_pull env_retry 2 = PullOk
   \<and> pull_bind_image env_retry state0 = (Inr (), state0\<lparr>trace := trace state0 @ pull_events 2\<rparr>)
   \<and> trace (snd (pull_bind_image env_retry state0)) =
        [ImagesPull ''ubuntu/bind9:latest'', Stdout ''Retrying image pull (1/3)...'',
         ImagesPull ''ubuntu/bind9:latest'', Stdout ''Retrying image pull (2/3)...'',
         ImagesPull ''ubuntu/bind9:latest'']"
proof -
  have h1: "(2::nat) < max_retries" by (simp add: max_retries_def)
  have h2: "\<forall>j<2. \<exists>m. images_pull env_retry j = PullAPIError m" by (simp add: env_retry_def)
  have h01: "images_pull env_retry 0 = PullAPIError ''500 Server Error''"
    "images_pull env_retry 1 = PullAPIError ''500 Server Error''" by (simp_all add: env_retry_def)
  have h3: "images_pull env_retry 2 = PullOk" by (simp add: env_retry_def)
  have ev: "pull_events 2 =
        [ImagesPull ''ubuntu/bind9:latest'', Stdout ''Retrying image pull (1/3)...'',
         ImagesPull ''ubuntu/bind9:latest'', Stdout ''Retrying image pull (2/3)...'',
         ImagesPull ''ubuntu/bind9:latest'']"
    by code_simp
  from pull_bind_image_retries [OF h1 h2, of state0] h3
  have "pull_bind_image env_retry state0 = (Inr (), state0\<lparr>trace := trace state0 @ pull_events 2\<rparr>)"
    by simp
  then show ?thesis using h1 h01 h3 ev by (simp add: state0_def)
qed

subsection \<open>The zone serial\<close>

lemma digit_val_digit_char: "d < 10 \<Longrightarrow> digit_val (digit_char d) = d"
  by (simp add: digit_val_def digit_char_def)

lemma digit_char_0: "digit_char 0 = CHR ''0''"
  unfolding digit_char_def by code_simp

lemma int_of_digits_snoc: "int_of_digits (s @ [c]) = 10 * int_of_digits s + digit_val c"
  by (simp add: int_of_digits_def)

lemma int_of_digits_str_nat: "int_of_digits (str_nat n) = n"
proof (induction n rule: str_nat.induct)
  case (1 n)
  show ?case
  proof (cases "n < 10")
    case True
    then show ?thesis
      by (subst str_nat.simps) (simp add: int_of_digits_def digit_val_digit_char)
  next
    case False
    have "int_of_digits (str_nat n) = 10 * int_of_digits (str_nat (n div 10)) + digit_val (digit_char (n mod 10))"
      using False by (subst str_nat.simps) (simp add: int_of_digits_snoc)
    also have "\<dots> = 10 * (n div 10) + n mod 10"
      using False 1 by (simp add: digit_val_digit_char)
    finally show ?thesis by simp
  qed
qed

lemma str_nat_snoc:
  assumes "0 < a" and "c < 10"
  shows "str_nat (a * 10 + c) = str_nat a @ [digit_char c]"
  using assms by (subst str_nat.simps) simp

lemma str_nat_two:
  assumes "0 < a" and "b < 100"
  shows "str_nat (a * 100 + b) = str_nat a @ zfill 2 (str_nat b)"
proof (cases "b < 10")
  case True
  have "a * 100 + b = (a * 10 + 0) * 10 + b" by simp
  then have "str_nat (a * 100 + b) = str_nat ((a * 10 + 0) * 10 + b)" by (rule arg_cong)
  also have "\<dots> = str_nat (a * 10 + 0) @ [digit_char b]"
    using assms True by (intro str_nat_snoc) auto
  also have "\<dots> = str_nat a @ [digit_char 0, digit_char b]"
    using str_nat_snoc [of a 0] assms by simp
  finally show ?thesis
    using True by (simp add: zfill_def digit_char_0 str_nat.simps [of b])
next
  case False
  have b: "str_nat b = [digit_char (b div 10), digit_char (b mod 10)]"
    using False assms by (simp add: str_nat.simps [of b] str_nat.simps [of "b div 10"])
  have "a * 100 + b = (a * 10 + b div 10) * 10 + b mod 10" by simp
  then have "str_nat (a * 100 + b) = str_nat ((a * 10 + b div 10) * 10 + b mod 10)"
    by (rule arg_cong)
  also have "\<dots> = str_nat (a * 10 + b div 10) @ [digit_char (b mod 10)]"
    using assms by (intro str_nat_snoc) auto
  also have "\<dots> = str_nat a @ [digit_char (b div 10), digit_char (b mod 10)]"
    using str_nat_snoc [of a "b div 10"] assms by simp
  finally show ?thesis by (simp add: b zfill_def)
qed

lemma length_zfill_two: "b < 100 \<Longrightarrow> length (zfill 2 (str_nat b)) = 2"
  by (cases "b < 10") (simp_all add: zfill_def str_nat.simps [of b] str_nat.simps [of "b div 10"])

lemma length_str_nat_four:
  assumes "1000 \<le> y" and "y \<le> 9999"
  shows "length (str_nat y) = 4"
proof -
  have "\<not> y < 10" "\<not> y div 10 < 10" "\<not> y div 10 div 10 < 10" "y div 10 div 10 div 10 < 10"
    using assms by arith+
  then show ?thesis
    by (simp add: str_nat.simps [of y] str_nat.simps [of "y div 10"]
      str_nat.simps [of "y div 10 div 10"] str_nat.simps [of "y div 10 div 10 div 10"])
qed

lemma strftime_is_str_nat:
  assumes "0 < year now" "month now < 100" "day now < 100" "hour now < 100"
  shows "strftime_YmdH now =
           str_nat (year now * 1000000 + month now * 10000 + day now * 100 + hour now)"
proof -
  have 1: "str_nat (year now * 100 + month now) = str_nat (year now) @ zfill 2 (str_nat (month now))"
    using assms by (intro str_nat_two) auto
  have 2: "str_nat ((year now * 100 + month now) * 100 + day now)
             = str_nat (year now * 100 + month now) @ zfill 2 (str_nat (day now))"
    using assms by (intro str_nat_two) auto
  have 3: "str_nat (((year now * 100 + month now) * 100 + day now) * 100 + hour now)
             = str_nat ((year now * 100 + month now) * 100 + day now) @ zfill 2 (str_nat (hour now))"
    using assms by (intro str_nat_two) auto
  have "year now * 1000000 + month now * 10000 + day now * 100 + hour now
          = ((year now * 100 + month now) * 100 + day now) * 100 + hour now"
    by simp
  then have "str_nat (year now * 1000000 + month now * 10000 + day now * 100 + hour now)
          = str_nat (((year now * 100 + month now) * 100 + day now) * 100 + hour now)"
    by (rule arg_cong)
  then show ?thesis
    unfolding strftime_YmdH_def 3 2 1 by simp
qed

text \<open>
  Claim C7.  For a time of the calendar with a four-digit year, the serial is the number
  whose decimal digits are the year on four digits followed by the month, the day and
  the hour on two digits each: a ten-digit number, and it is this number that the zone
  template prints on the line after the SOA record.
\<close>

theorem get_serial_YYYYMMDDHH:
  assumes "1000 \<le> year now" and "year now \<le> 9999"
    and "1 \<le> month now" and "month now \<le> 12"
    and "1 \<le> day now" and "day now \<le> 31"
    and "hour now \<le> 23"
  shows "get_serial now = year now * 1000000 + month now * 10000 + day now * 100 + hour now
    \<and> 1000000000 \<le> get_serial now \<and> get_serial now < 10000000000
    \<and> str_nat (get_serial now) = strftime_YmdH now
    \<and> length (strftime_YmdH now) = 10
    \<and> zone_header now domain s =
         ''; Zone file for '' @ domain @ NL
         @ ''$TTL 86400'' @ NL
         @ ''@ IN SOA ns.'' @ domain @ ''. admin.'' @ domain @ ''. ('' @ NL
         @ ''    '' @ strftime_YmdH now @ NL
         @ ''    3600'' @ NL
         @ ''    900'' @ NL
         @ ''    604800'' @ NL
         @ ''    86400 )'' @ NL
         @ NL
         @ ''@       IN NS  ns.'' @ domain @ ''.'' @ NL
         @ ''ns      IN A   '' @ str_public_ip s @ NL
         @ NL"
proof -
  let ?N = "year now * 1000000 + month now * 10000 + day now * 100 + hour now"
  have f: "strftime_YmdH now = str_nat ?N"
    using assms by (intro strftime_is_str_nat) auto
  have g: "get_serial now = ?N"
    by (simp add: get_serial_def f int_of_digits_str_nat)
  have l: "length (strftime_YmdH now) = 10"
    using assms by (simp add: strftime_YmdH_def length_zfill_two length_str_nat_four)
  have b: "1000000000 \<le> ?N" "?N < 10000000000"
    using assms by auto
  show ?thesis
    using b l by (simp add: g zone_header_def) (simp add: f)
qed

theorem get_serial_YYYYMMDDHH_witness:
  "1000 \<le> year noon \<and> year noon \<le> 9999 \<and> 1 \<le> month noon \<and> month noon \<le> 12
   \<and> 1 \<le> day noon \<and> day noon \<le> 31 \<and> hour noon \<le> 23
   \<and> get_serial noon = 2024030712
   \<and> strftime_YmdH noon = ''2024030712''"
proof -
  have h: "1000 \<le> year noon" "year noon \<le> 9999" "1 \<le> month noon" "month noon \<le> 12"
    "1 \<le> day noon" "day noon \<le> 31" "hour noon \<le> 23"
    by (simp_all add: noon_def)
  have s: "strftime_YmdH noon = ''2024030712''"
    by code_simp
  from get_serial_YYYYMMDDHH [OF h]
  have "get_serial noon = year noon * 1000000 + month noon * 10000 + day noon * 100 + hour noon"
    by simp
  then have "get_serial noon = 2024030712" by (simp add: noon_def)
  then show ?thesis using h s by simp
qed

subsection \<open>Public-IP discovery\<close>

text \<open>
  Claim C3.  The claim is right and the code misses it: a response with a status outside
  2xx should start the fallback, but the lookup never looks at the status.  Here the
  endpoint answers 500 and the shell fallback would have given the address
  \<open>10.0.0.5\<close>; the lookup returns the body of the error page as the public IP and the
  fallback is never run (the trace holds the HTTP request alone).
\<close>

theorem get_public_ip_http_500:
  "http_get env_http_500 = HttpResponse 500 ''Internal Server Error''
   \<and> shell env_http_500 ip_fallback_cmd = CmdOk ''10.0.0.5''
   \<and> get_public_ip env_http_500 state0 =
        (Inr ''Internal Server Error'', state0\<lparr>trace := [HttpGet ''https://api.ipify.org'' 3]\<rparr>)"
  by (simp add: env_http_500_def env_retry_def get_public_ip_def state0_def emit_def)

subsection \<open>Replacing the container\<close>

lemma cleanup_existing_Inr:
  assumes "cleanup_existing e s = (Inr u, s1)"
  shows "(find (\<lambda>c. cname c = reserved_name) (containers s) = None
          \<and> s1 = s\<lparr>trace := trace s @ [ContainersGet reserved_name]\<rparr>)
       \<or> (\<exists>old. find (\<lambda>c. cname c = reserved_name) (containers s) = Some old
          \<and> s1 = s\<lparr>trace := trace s @ [ContainersGet reserved_name, ContainerRemove (cid old) True],
                    containers := filter (\<lambda>c'. cid c' \<noteq> cid old) (containers s)\<rparr>)"
  using assms
  by (auto simp: cleanup_existing_def containers_get_def container_remove_def emit_def Let_def
      split: option.splits if_splits)

lemma cleanup_existing_ok:
  assumes "get_error e = None" and "remove_error e = None"
  shows "fst (cleanup_existing e s) = Inr ()"
  using assms
  by (auto simp: cleanup_existing_def containers_get_def container_remove_def emit_def Let_def
      split: option.splits)

lemma containers_run_Inr:
  assumes "containers_run e img name s1 = (Inr u, s')"
  shows "(\<forall>c \<in> set (containers s1). cname c \<noteq> name)
       \<and> s' = s1\<lparr>trace := trace s1 @ [ContainersRun img name],
                  containers := containers s1 @
                     [\<lparr>cname = name, cid = next_id s1, cimage = img, running = True\<rparr>],
                  next_id := Suc (next_id s1)\<rparr>"
  using assms
  by (auto simp: containers_run_def emit_def Let_def split: option.splits if_splits)

lemma start_container_Inr:
  assumes "start_container e s = (Inr u, s')"
  shows "\<exists>s1. cleanup_existing e s = (Inr (), s1)
            \<and> containers_run e docker_image reserved_name s1 = (Inr (), s')"
  using assms
  by (auto simp: start_container_def start_container_body_def split: prod.splits sum.splits if_splits)

lemma find_name_None: "find (\<lambda>c. cname c = n) cs = None \<longleftrightarrow> (\<forall>c \<in> set cs. cname c \<noteq> n)"
  by (auto simp: find_None_iff)

lemma start_container_run:
  "(start_container e s = (Inr (), s') \<and> (\<forall>c \<in> set (containers s). cid c < next_id s) \<longrightarrow>
      filter (\<lambda>c. cname c = reserved_name) (containers s') = [launched s]
      \<and> launched s \<notin> set (containers s)
      \<and> (\<forall>old \<in> set (containers s). cname old = reserved_name \<longrightarrow>
            old \<notin> set (containers s')
            \<and> trace s' = trace s @ [ContainersGet reserved_name, ContainerRemove (cid old) True,
                                    ContainersRun docker_image reserved_name])
      \<and> ((\<forall>c \<in> set (containers s). cname c \<noteq> reserved_name) \<longrightarrow>
            trace s' = trace s @ [ContainersGet reserved_name,
                                  ContainersRun docker_image reserved_name]))
   \<and> (get_error e = None \<and> remove_error e = None \<and> run_error e = None
        \<and> length (filter (\<lambda>c. cname c = reserved_name) (containers s)) \<le> 1 \<longrightarrow>
      fst (start_container e s) = Inr ())"
proof (intro conjI impI)
  assume a: "start_container e s = (Inr (), s') \<and> (\<forall>c \<in> set (containers s). cid c < next_id s)"
  then obtain s1 where c: "cleanup_existing e s = (Inr (), s1)"
    and r: "containers_run e docker_image reserved_name s1 = (Inr (), s')"
    using start_container_Inr by blast
  from containers_run_Inr [OF r]
  have free: "\<forall>c \<in> set (containers s1). cname c \<noteq> reserved_name"
    and s': "s' = s1\<lparr>trace := trace s1 @ [ContainersRun docker_image reserved_name],
                  containers := containers s1 @ [launched s1],
                  next_id := Suc (next_id s1)\<rparr>"
    by (simp_all add: launched_def)
  have id1: "next_id s1 = next_id s"
    using cleanup_existing_Inr [OF c] by auto
  have l: "launched s1 = launched s" by (simp add: launched_def id1)
  show "filter (\<lambda>c. cname c = reserved_name) (containers s') = [launched s]"
    using free by (simp add: s' l) (simp add: launched_def filter_empty_conv)
  show "launched s \<notin> set (containers s)"
    using a by (auto simp: launched_def)
  show "\<forall>old \<in> set (containers s). cname old = reserved_name \<longrightarrow>
            old \<notin> set (containers s')
            \<and> trace s' = trace s @ [ContainersGet reserved_name, ContainerRemove (cid old) True,
                                    ContainersRun docker_image reserved_name]"
  proof (intro ballI impI)
    fix old assume old: "old \<in> set (containers s)" "cname old = reserved_name"
    then have "find (\<lambda>c. cname c = reserved_name) (containers s) \<noteq> None"
      by (auto simp: find_name_None)
    with cleanup_existing_Inr [OF c] obtain first where
      f: "find (\<lambda>c. cname c = reserved_name) (containers s) = Some first"
      and s1: "s1 = s\<lparr>trace := trace s @ [ContainersGet reserved_name, ContainerRemove (cid first) True],
                    containers := filter (\<lambda>c'. cid c' \<noteq> cid first) (containers s)\<rparr>"
      by auto
    have same: "cid old = cid first"
      using free old by (auto simp: s1)
    have "old \<noteq> launched s"
      using a old by (auto simp: launched_def)
    then show "old \<notin> set (containers s')
            \<and> trace s' = trace s @ [ContainersGet reserved_name, ContainerRemove (cid old) True,
                                    ContainersRun docker_image reserved_name]"
      using same by (simp add: s' l) (simp add: s1)
  qed
  show "trace s' = trace s @ [ContainersGet reserved_name,
                                  ContainersRun docker_image reserved_name]"
    if "\<forall>c \<in> set (containers s). cname c \<noteq> reserved_name"
  proof -
    have "find (\<lambda>c. cname c = reserved_name) (containers s) = None"
      using that by (simp add: find_name_None)
    with cleanup_existing_Inr [OF c]
    have "s1 = s\<lparr>trace := trace s @ [ContainersGet reserved_name]\<rparr>" by auto
    then show ?thesis by (simp add: s')
  qed
next
  assume a: "get_error e = None \<and> remove_error e = None \<and> run_error e = None
        \<and> length (filter (\<lambda>c. cname c = reserved_name) (containers s)) \<le> 1"
  obtain r s1 where c: "cleanup_existing e s = (r, s1)" by (cases "cleanup_existing e s")
  with cleanup_existing_ok [of e s] a have c: "cleanup_existing e s = (Inr (), s1)"
    by simp
  have free: "\<forall>c \<in> set (containers s1). cname c \<noteq> reserved_name"
  proof (cases "find (\<lambda>c. cname c = reserved_name) (containers s)")
    case None
    with cleanup_existing_Inr [OF c] show ?thesis
      by (auto simp: find_name_None)
  next
    case (Some first)
    with cleanup_existing_Inr [OF c]
    have s1: "containers s1 = filter (\<lambda>c'. cid c' \<noteq> cid first) (containers s)" by auto
    from Some have fst: "first \<in> set (containers s)" "cname first = reserved_name"
      by (auto simp: find_Some_iff in_set_conv_nth)
    have "filter (\<lambda>c. cname c = reserved_name) (containers s) = [first]"
    proof -
      have "first \<in> set (filter (\<lambda>c. cname c = reserved_name) (containers s))"
        using fst by simp
      with a show ?thesis
        by (cases "filter (\<lambda>c. cname c = reserved_name) (containers s)") auto
    qed
    then have "set (filter (\<lambda>c. cname c = reserved_name) (containers s)) = {first}"
      by simp
    then have "\<forall>c \<in> set (containers s). cname c = reserved_name \<longrightarrow> c = first"
      by auto
    then show ?thesis by (auto simp: s1)
  qed
  then show "fst (start_container e s) = Inr ()"
    using a c
    by (simp add: start_container_def start_container_body_def containers_run_def Let_def emit_def)
qed

text \<open>
  Claim C8.  When the orchestration succeeds on a machine whose container identifiers
  are all below the next fresh one, exactly one container of the reserved name exists
  afterwards, and it is the newly launched one, not a container that was there before.
  A container of that name that was there before, running or stopped, is gone, and
  its forced removal comes before the launch in the trace.  When no such container
  existed, the lookup is followed by the launch directly.  And the orchestration does
  succeed, with or without an earlier container of that name, whenever the engine
  reports no API error of its own and holds at most one container of the name.
\<close>

theorem start_container_replaces:
  "(start_container e s = (Inr (), s') \<and> (\<forall>c \<in> set (containers s). cid c < next_id s) \<longrightarrow>
      filter (\<lambda>c. cname c = reserved_name) (containers s') = [launched s]
      \<and> launched s \<notin> set (containers s)
      \<and> (\<forall>old \<in> set (containers s). cname old = reserved_name \<longrightarrow>
            old \<notin> set (containers s')
            \<and> trace s' = trace s @ [ContainersGet reserved_name, ContainerRemove (cid old) True,
                                    ContainersRun docker_image reserved_name])
      \<and> ((\<forall>c \<in> set (containers s). cname c \<noteq> reserved_name) \<longrightarrow>
            trace s' = trace s @ [ContainersGet reserved_name,
                                  ContainersRun docker_image reserved_name]))
   \<and> (get_error e = None \<and> remove_error e = None \<and> run_error e = None
        \<and> length (filter (\<lambda>c. cname c = reserved_name) (containers s)) \<le> 1 \<longrightarrow>
      fst (start_container e s) = Inr ())"
  by (rule start_container_run)

theorem start_container_replaces_witness:
  "start_container env_retry state_stale =
     (Inr (), state_stale\<lparr>containers := [other_container, launched state_stale], next_id := 9,
        trace := [ContainersGet ''dns-server'', ContainerRemove 7 True,
                  ContainersRun ''ubuntu/bind9:latest'' ''dns-server'']\<rparr>)
   \<and> cid other_container < next_id state_stale \<and> cid stale_container < next_id state_stale
   \<and> stale_container \<in> set (containers state_stale) \<and> cname stale_container = reserved_name
   \<and> filter (\<lambda>c. cname c = reserved_name)
        (containers (snd (start_container env_retry state_stale))) = [launched state_stale]
   \<and> stale_container \<notin> set (containers (snd (start_container env_retry state_stale)))
   \<and> get_error env_retry = None \<and> remove_error env_retry = None \<and> run_error env_retry = None
   \<and> length (filter (\<lambda>c. cname c = reserved_name) (containers state0)) \<le> 1
   \<and> fst (start_container env_retry state0) = Inr ()"
proof -
  let ?s' = "state_stale\<lparr>containers := [other_container, launched state_stale], next_id := 9,
        trace := [ContainersGet ''dns-server'', ContainerRemove 7 True,
                  ContainersRun ''ubuntu/bind9:latest'' ''dns-server'']\<rparr>"
  have run: "start_container env_retry state_stale = (Inr (), ?s')"
    by (simp add: start_container_def start_container_body_def cleanup_existing_def
        containers_get_def container_remove_def containers_run_def emit_def Let_def
        env_retry_def state_stale_def state0_def stale_container_def other_container_def
        reserved_name_def docker_image_def launched_def)
  have inv: "\<forall>c \<in> set (containers state_stale). cid c < next_id state_stale"
    by (simp add: state_stale_def stale_container_def other_container_def)
  have old: "stale_container \<in> set (containers state_stale)" "cname stale_container = reserved_name"
    by (simp_all add: state_stale_def stale_container_def reserved_name_def)
  have ok: "get_error env_retry = None \<and> remove_error env_retry = None \<and> run_error env_retry = None
        \<and> length (filter (\<lambda>c. cname c = reserved_name) (containers state0)) \<le> 1"
    by (simp add: env_retry_def state0_def)
  from start_container_replaces [of env_retry state_stale ?s'] run inv old
  have 1: "filter (\<lambda>c. cname c = reserved_name) (containers ?s') = [launched state_stale]"
    and 2: "stale_container \<notin> set (containers ?s')"
    by blast+
  from start_container_replaces [of env_retry state0 state0] ok
  have 3: "fst (start_container env_retry state0) = Inr ()"
    by blast
  have inv': "cid other_container < next_id state_stale" "cid stale_container < next_id state_stale"
    using inv by (simp_all add: state_stale_def)
  have sn: "snd (start_container env_retry state_stale) = ?s'"
    by (simp only: run snd_conv)
  show ?thesis
    unfolding sn using run inv' old ok 1 2 3 by blast
qed

subsection \<open>Writing the configuration\<close>

lemma zone_path_inj: "zone_path a = zone_path b \<longleftrightarrow> a = b"
  by (simp add: zone_path_def path_join_def)

lemma zone_path_not_named_conf: "zone_path a \<noteq> named_conf_path"
  by (simp add: zone_path_def named_conf_path_def path_join_def)

lemma dict_get_key: "d \<in> set (keys m) \<Longrightarrow> \<exists>v. dict_get m d = Some v"
  by (cases "map_of m d") (auto simp: keys_def dict_get_def map_of_eq_None_iff)

lemma generate_zone_file_key:
  assumes "d \<in> set (keys (dns_records s))"
  shows "generate_zone_file now d s = Inr (zone_content now d s)"
  using dict_get_key [OF assms]
  by (auto simp: zone_content_def generate_zone_file_def)

lemma zone_content_cong:
  assumes "dns_records s1 = dns_records s" and "public_ip s1 = public_ip s"
  shows "zone_content now d s1 = zone_content now d s"
  using assms
  by (simp add: zone_content_def generate_zone_file_def zone_header_def str_public_ip_def
      split: option.splits)

lemma write_text_ok:
  assumes "write_result e p = OsOk"
  shows "write_text e p c s = (Inr (), s\<lparr>trace := trace s @ [WriteText p], files := (files s)(p \<mapsto> c)\<rparr>)"
  using assms by (simp add: write_text_def emit_def)

lemma write_text_fail:
  assumes "write_result e p \<noteq> OsOk"
  shows "write_text e p c s =
           (Inl (os_exn (write_result e p)),
            s\<lparr>trace := trace s @ [WriteText p],
              files := (files s)(p := after_failed_write e p c (files s p))\<rparr>)"
  using assms
  by (cases "write_result e p"; cases "write_left e p")
     (simp_all add: write_text_def emit_def after_failed_write_def)

lemma os_exn_kinds:
  assumes "out \<noteq> OsOk"
  shows "(\<exists>m. os_exn out = PermissionError m) \<or> (\<exists>m. os_exn out = OSError m)
           \<or> (\<exists>m. os_exn out = ValueError m)"
  using assms by (cases out) simp_all

lemma mkdir_ok:
  assumes "mkdir_result e = OsOk"
  shows "mkdir e path True True s =
           (Inr (), s\<lparr>trace := trace s @ [Mkdir path True True], dirs := dirs_with path (dirs s)\<rparr>)"
  using assms by (auto simp: mkdir_def emit_def dirs_with_def Let_def Un_absorb1)

lemma mkdir_fail:
  assumes "mkdir_result e \<noteq> OsOk"
  shows "mkdir e path parents exist_ok s =
           (Inl (os_exn (mkdir_result e)), s\<lparr>trace := trace s @ [Mkdir path parents exist_ok]\<rparr>)"
  using assms by (cases "mkdir_result e") (simp_all add: mkdir_def emit_def)

lemma after_failed_write_mono:
  "\<exists>y. after_failed_write e p c (Some x) = Some y"
  by (simp add: after_failed_write_def split: option.splits os_outcome.splits)

lemma ancestors_volume_path: "ancestors volume_path = [''/etc'']"
  by code_simp

lemma write_zones_run:
  assumes "k \<le> length ds" and "distinct ds" and "set ds \<subseteq> set (keys (dns_records s))"
    and "\<forall>j<k. write_result e (zone_path (ds ! j)) = OsOk"
    and "k < length ds \<longrightarrow> write_result e (zone_path (ds ! k)) \<noteq> OsOk"
  shows "\<exists>s'. write_zones e i ds s =
            (if k < length ds then Inl (os_exn (write_result e (zone_path (ds ! k)))) else Inr (), s')
       \<and> trace s' = trace s @ map (\<lambda>d. WriteText (zone_path d)) (take (Suc k) ds)
       \<and> (\<forall>j<k. files s' (zone_path (ds ! j)) = Some (zone_content (utcnow e (i + j)) (ds ! j) s))
       \<and> (k < length ds \<longrightarrow>
             files s' (zone_path (ds ! k)) =
               after_failed_write e (zone_path (ds ! k)) (zone_content (utcnow e (i + k)) (ds ! k) s)
                 (files s (zone_path (ds ! k))))
       \<and> (\<forall>p. p \<notin> zone_path ` set (take (Suc k) ds) \<longrightarrow> files s' p = files s p)
       \<and> dns_records s' = dns_records s \<and> public_ip s' = public_ip s
       \<and> containers s' = containers s \<and> next_id s' = next_id s \<and> client s' = client s
       \<and> dirs s' = dirs s"
  using assms
proof (induction ds arbitrary: i s k)
  case Nil
  then show ?case by simp
next
  case (Cons d ds)
  have key: "d \<in> set (keys (dns_records s))" using Cons.prems by simp
  note gz = generate_zone_file_key [OF key]
  show ?case
  proof (cases k)
    case 0
    then have "write_result e (zone_path d) \<noteq> OsOk" using Cons.prems by simp
    then show ?thesis
      using 0 by (simp add: gz write_text_fail)
  next
    case (Suc k')
    have ok: "write_result e (zone_path d) = OsOk" using Cons.prems Suc by auto
    let ?s1 = "s\<lparr>trace := trace s @ [WriteText (zone_path d)],
                 files := (files s)(zone_path d \<mapsto> zone_content (utcnow e i) d s)\<rparr>"
    have step: "write_zones e i (d # ds) s = write_zones e (Suc i) ds ?s1"
      by (simp add: gz write_text_ok [OF ok])
    have p1: "k' \<le> length ds" "distinct ds" "set ds \<subseteq> set (keys (dns_records ?s1))"
      using Cons.prems Suc by auto
    have p2: "\<forall>j<k'. write_result e (zone_path (ds ! j)) = OsOk"
      using Cons.prems(4) Suc by auto
    have p3: "k' < length ds \<longrightarrow> write_result e (zone_path (ds ! k')) \<noteq> OsOk"
      using Cons.prems(5) Suc by auto
    from Cons.IH [OF p1 p2 p3, of "Suc i"] obtain s' where
      r: "write_zones e (Suc i) ds ?s1 =
            (if k' < length ds then Inl (os_exn (write_result e (zone_path (ds ! k')))) else Inr (), s')"
      and t: "trace s' = trace ?s1 @ map (\<lambda>d. WriteText (zone_path d)) (take (Suc k') ds)"
      and f: "\<forall>j<k'. files s' (zone_path (ds ! j)) = Some (zone_content (utcnow e (Suc i + j)) (ds ! j) ?s1)"
      and fl: "k' < length ds \<longrightarrow>
             files s' (zone_path (ds ! k')) =
               after_failed_write e (zone_path (ds ! k')) (zone_content (utcnow e (Suc i + k')) (ds ! k') ?s1)
                 (files ?s1 (zone_path (ds ! k')))"
      and g: "\<forall>p. p \<notin> zone_path ` set (take (Suc k') ds) \<longrightarrow> files s' p = files ?s1 p"
      and rest: "dns_records s' = dns_records ?s1" "public_ip s' = public_ip ?s1"
        "containers s' = containers ?s1" "next_id s' = next_id ?s1" "client s' = client ?s1"
        "dirs s' = dirs ?s1"
      by blast
    have dn: "zone_path d \<notin> zone_path ` set ds"
      using Cons.prems(2) by (auto simp: zone_path_inj)
    then have dn': "zone_path d \<notin> zone_path ` set (take (Suc k') ds)"
      by (auto dest: in_set_takeD)
    have zc: "zone_content now x ?s1 = zone_content now x s" for now x
      by (rule zone_content_cong) simp_all
    have files: "\<forall>j<k. files s' (zone_path ((d # ds) ! j)) =
                      Some (zone_content (utcnow e (i + j)) ((d # ds) ! j) s)"
    proof (intro allI impI)
      fix j assume "j < k"
      show "files s' (zone_path ((d # ds) ! j)) = Some (zone_content (utcnow e (i + j)) ((d # ds) ! j) s)"
      proof (cases j)
        case 0
        then show ?thesis using g dn' by simp
      next
        case (Suc j')
        then have "j' < k'" using \<open>j < k\<close> \<open>k = Suc k'\<close> by simp
        then show ?thesis using f Suc by (simp add: zc)
      qed
    qed
    have failing: "k < length (d # ds) \<longrightarrow>
             files s' (zone_path ((d # ds) ! k)) =
               after_failed_write e (zone_path ((d # ds) ! k))
                 (zone_content (utcnow e (i + k)) ((d # ds) ! k) s) (files s (zone_path ((d # ds) ! k)))"
    proof
      assume "k < length (d # ds)"
      then have kl: "k' < length ds" using Suc by simp
      then have "ds ! k' \<in> set ds" by simp
      then have "zone_path (ds ! k') \<in> zone_path ` set ds" by (rule imageI)
      with dn have "zone_path (ds ! k') \<noteq> zone_path d" by metis
      then have "files ?s1 (zone_path (ds ! k')) = files s (zone_path (ds ! k'))" by simp
      with fl kl show "files s' (zone_path ((d # ds) ! k)) =
               after_failed_write e (zone_path ((d # ds) ! k))
                 (zone_content (utcnow e (i + k)) ((d # ds) ! k) s) (files s (zone_path ((d # ds) ! k)))"
        by (simp add: Suc zc)
    qed
    have other: "\<forall>p. p \<notin> zone_path ` set (take (Suc k) (d # ds)) \<longrightarrow> files s' p = files s p"
      using g Suc by auto
    show ?thesis
      unfolding step r using t files failing other rest Suc by auto
  qed
qed

lemma generate_zone_files_run:
  assumes "mkdir_result e = OsOk"
    and "write_result e named_conf_path = OsOk"
    and "distinct (keys (dns_records s))"
    and "k \<le> length (keys (dns_records s))"
    and "\<forall>j<k. write_result e (zone_path (keys (dns_records s) ! j)) = OsOk"
    and "k < length (keys (dns_records s)) \<longrightarrow>
           write_result e (zone_path (keys (dns_records s) ! k)) \<noteq> OsOk"
  shows "\<exists>r s'. generate_zone_files e s = (r, s')
    \<and> trace s' = trace s @ [Mkdir volume_path True True, WriteText named_conf_path]
                   @ map (\<lambda>d. WriteText (zone_path d)) (take (Suc k) (keys (dns_records s)))
    \<and> dirs s' = (if volume_path \<in> dirs s then dirs s
                  else insert volume_path (set (ancestors volume_path) \<union> dirs s))
    \<and> ancestors volume_path = [''/etc'']
    \<and> files s' named_conf_path = Some (named_conf s)
    \<and> (\<forall>j<k. files s' (zone_path (keys (dns_records s) ! j)) =
                Some (zone_content (utcnow e j) (keys (dns_records s) ! j) s))
    \<and> (k < length (keys (dns_records s)) \<longrightarrow>
           files s' (zone_path (keys (dns_records s) ! k)) =
             after_failed_write e (zone_path (keys (dns_records s) ! k))
               (zone_content (utcnow e k) (keys (dns_records s) ! k) s)
               (files s (zone_path (keys (dns_records s) ! k))))
    \<and> (\<forall>j. k < j \<and> j < length (keys (dns_records s)) \<longrightarrow>
           files s' (zone_path (keys (dns_records s) ! j)) =
           files s (zone_path (keys (dns_records s) ! j)))
    \<and> (k = length (keys (dns_records s)) \<longrightarrow> r = Inr ())
    \<and> (\<forall>m. k < length (keys (dns_records s))
           \<and> write_result e (zone_path (keys (dns_records s) ! k)) = OsPermissionError m \<longrightarrow>
           r = Inl (DNSConfigError (''Permission denied: '' @ m)))
    \<and> (\<forall>m. k < length (keys (dns_records s))
           \<and> write_result e (zone_path (keys (dns_records s) ! k)) = OsOSError m \<longrightarrow>
           r = Inl (DNSConfigError (''File system error: '' @ m)))
    \<and> (\<forall>m. k < length (keys (dns_records s))
           \<and> write_result e (zone_path (keys (dns_records s) ! k)) = OsUnicodeEncodeError m \<longrightarrow>
           r = Inl (ValueError m))"
proof -
  let ?ds = "keys (dns_records s)"
  let ?s1 = "s\<lparr>trace := trace s @ [Mkdir volume_path True True],
               dirs := dirs_with volume_path (dirs s)\<rparr>"
  let ?s2 = "?s1\<lparr>trace := trace ?s1 @ [WriteText named_conf_path],
               files := (files ?s1)(named_conf_path \<mapsto> named_conf s)\<rparr>"
  have mk: "mkdir e volume_path True True s = (Inr (), ?s1)"
    by (rule mkdir_ok [OF assms(1)])
  have nc: "named_conf ?s1 = named_conf s"
    by (simp add: named_conf_def generate_zone_entries_def)
  have wr: "write_text e named_conf_path (named_conf ?s1) ?s1 = (Inr (), ?s2)"
    using write_text_ok [OF assms(2), of "named_conf s" ?s1] by (simp only: nc)
  have body: "generate_zone_files_body e s = write_zones e 0 ?ds ?s2"
    unfolding generate_zone_files_body_def mk by (simp add: wr del: fun_upd_apply)
  have pre: "k \<le> length ?ds" "distinct ?ds" "set ?ds \<subseteq> set (keys (dns_records ?s2))"
    using assms by simp_all
  from write_zones_run [OF pre assms(5) assms(6), of 0] obtain s' where
    r: "write_zones e 0 ?ds ?s2 =
          (if k < length ?ds then Inl (os_exn (write_result e (zone_path (?ds ! k)))) else Inr (), s')"
    and t: "trace s' = trace ?s2 @ map (\<lambda>d. WriteText (zone_path d)) (take (Suc k) ?ds)"
    and f: "\<forall>j<k. files s' (zone_path (?ds ! j)) = Some (zone_content (utcnow e (0 + j)) (?ds ! j) ?s2)"
    and fl: "k < length ?ds \<longrightarrow>
             files s' (zone_path (?ds ! k)) =
               after_failed_write e (zone_path (?ds ! k)) (zone_content (utcnow e (0 + k)) (?ds ! k) ?s2)
                 (files ?s2 (zone_path (?ds ! k)))"
    and g: "\<forall>p. p \<notin> zone_path ` set (take (Suc k) ?ds) \<longrightarrow> files s' p = files ?s2 p"
    and dr: "dirs s' = dirs ?s2"
    by blast
  have zc: "zone_content now x ?s2 = zone_content now x s" for now x
    by (rule zone_content_cong) simp_all
  have later: "zone_path (?ds ! j) \<notin> zone_path ` set (take (Suc k) ?ds)"
    if "k < j" "j < length ?ds" for j
  proof
    assume "zone_path (?ds ! j) \<in> zone_path ` set (take (Suc k) ?ds)"
    then have "?ds ! j \<in> set (take (Suc k) ?ds)" by (auto simp: zone_path_inj)
    then obtain i where "i < Suc k" "i < length ?ds" "?ds ! i = ?ds ! j"
      by (auto simp: in_set_conv_nth)
    with that assms(3) show False
      by (simp add: nth_eq_iff_index_eq)
  qed
  have nconf: "named_conf_path \<notin> zone_path ` set (take (Suc k) ?ds)"
  proof
    assume "named_conf_path \<in> zone_path ` set (take (Suc k) ?ds)"
    then obtain x where "named_conf_path = zone_path x" by auto
    with zone_path_not_named_conf [of x] show False by simp
  qed
  let ?r = "fst (generate_zone_files e s)"
  have res: "generate_zone_files e s = (?r, s')"
    unfolding generate_zone_files_def body r
    by (cases "write_result e (zone_path (?ds ! k))") simp_all
  have ok: "k = length ?ds \<longrightarrow> ?r = Inr ()"
    unfolding generate_zone_files_def body r by simp
  have perm: "\<forall>m. k < length ?ds \<and> write_result e (zone_path (?ds ! k)) = OsPermissionError m \<longrightarrow>
           ?r = Inl (DNSConfigError (''Permission denied: '' @ m))"
    unfolding generate_zone_files_def body r by simp
  have oserr: "\<forall>m. k < length ?ds \<and> write_result e (zone_path (?ds ! k)) = OsOSError m \<longrightarrow>
           ?r = Inl (DNSConfigError (''File system error: '' @ m))"
    unfolding generate_zone_files_def body r by simp
  have enc: "\<forall>m. k < length ?ds \<and> write_result e (zone_path (?ds ! k)) = OsUnicodeEncodeError m \<longrightarrow>
           ?r = Inl (ValueError m)"
    unfolding generate_zone_files_def body r by simp
  have f1: "files s' named_conf_path = Some (named_conf s)"
    using g nconf by simp
  have f2: "\<forall>j<k. files s' (zone_path (?ds ! j)) = Some (zone_content (utcnow e j) (?ds ! j) s)"
    using f unfolding zc by simp
  have f3: "\<forall>j. k < j \<and> j < length ?ds \<longrightarrow>
           files s' (zone_path (?ds ! j)) = files s (zone_path (?ds ! j))"
    using g later by (simp add: zone_path_not_named_conf)
  have f4: "k < length ?ds \<longrightarrow>
           files s' (zone_path (?ds ! k)) =
             after_failed_write e (zone_path (?ds ! k)) (zone_content (utcnow e k) (?ds ! k) s)
               (files s (zone_path (?ds ! k)))"
    using fl unfolding zc by (simp add: zone_path_not_named_conf)
  have t': "trace s' = trace s @ [Mkdir volume_path True True, WriteText named_conf_path]
                   @ map (\<lambda>d. WriteText (zone_path d)) (take (Suc k) ?ds)"
    using t by simp
  have d': "dirs s' = (if volume_path \<in> dirs s then dirs s
                  else insert volume_path (set (ancestors volume_path) \<union> dirs s))"
    using dr by (simp add: dirs_with_def)
  show ?thesis
    using res t' d' ancestors_volume_path f1 f2 f3 f4 ok perm oserr enc by blast
qed



subsection \<open>Rendering\<close>

lemma join_append:
  assumes "xs \<noteq> []" and "ys \<noteq> []"
  shows "join sep (xs @ ys) = join sep xs @ sep @ join sep ys"
  using assms
proof (induction sep xs rule: join.induct)
  case (2 sep x)
  then show ?case by (cases ys) simp_all
qed simp_all

lemma join_Cons: "ys \<noteq> [] \<Longrightarrow> join sep (x # ys) = x @ sep @ join sep ys"
  by (cases ys) simp_all

lemma split_no_sep: "c \<notin> set w \<Longrightarrow> split c w = [w]"
  by (induction w) auto

lemma split_at_sep: "c \<notin> set w \<Longrightarrow> split c (w @ c # rest) = w # split c rest"
  by (induction w) auto

lemma split_not_Nil: "split c s \<noteq> []"
  by (induction s) (auto split: list.splits)

lemma zone_entry_inj: "zone_entry a = zone_entry b \<longleftrightarrow> a = b"
proof
  assume eq: "zone_entry a = zone_entry b"
  then have "length (zone_entry a) = length (zone_entry b)" by simp
  then have "length a = length b" by (simp add: zone_entry_def)
  with eq show "a = b" by (simp add: zone_entry_def)
qed simp

text \<open>
  Claim C6.  For an apex domain of the model with its (non-empty) record mapping, the
  zone file is the sequence of lines: the comment, \<open>$TTL 86400\<close>, the SOA record
  \<open>@ IN SOA ns.<apex>. admin.<apex>. (\<close>, the serial, the constants 3600, 900, 604800
  and \<open>86400 )\<close>, an empty line, the NS record and the glue record (their fields
  aligned in columns by runs of spaces), an empty line, and one line per record of the
  mapping, in the order of the mapping, each made of the hostname padded with spaces to
  30 characters, \<open>IN A\<close> and the address.  The NS line has the fields \<open>@ IN NS
  ns.<apex>.\<close> and the glue line the fields \<open>ns IN A <public-ip>\<close>.  The master
  configuration is the sequence of lines of the options block, with \<open>listen-on port 53
  { any; };\<close>, \<open>allow-query { any; };\<close> and \<open>recursion no;\<close>, followed by one zone
  stanza per apex domain, each naming the file \<open>/etc/bind/db.<apex>\<close>; distinct apex
  domains have distinct stanzas.
\<close>

theorem render_zone_and_config:
  assumes "dict_get (dns_records s) domain = Some recs" and "recs \<noteq> []"
    and "public_ip s = Some ip"
    and "distinct (keys (dns_records s))"
  shows "generate_zone_file now domain s =
      Inr (join NL
        ([''; Zone file for '' @ domain,
          ''$TTL 86400'',
          ''@ IN SOA ns.'' @ domain @ ''. admin.'' @ domain @ ''. ('',
          ''    '' @ str_nat (get_serial now),
          ''    3600'',
          ''    900'',
          ''    604800'',
          ''    86400 )'',
          [],
          ''@       IN NS  ns.'' @ domain @ ''.'',
          ''ns      IN A   '' @ ip,
          []]
         @ map record_line recs @ [[]]))
    \<and> (\<forall>p \<in> set recs. record_line p =
           fst p @ replicate (30 - length (fst p)) CHR '' '' @ '' IN A '' @ snd p
           \<and> 30 \<le> length (ljust 30 (fst p)))
    \<and> (CHR '' '' \<notin> set domain \<longrightarrow>
          fields (''@       IN NS  ns.'' @ domain @ ''.'') = [''@'', ''IN'', ''NS'', ''ns.'' @ domain @ ''.''])
    \<and> (CHR '' '' \<notin> set ip \<longrightarrow>
          fields (''ns      IN A   '' @ ip) = filter (\<lambda>w. w \<noteq> []) [''ns'', ''IN'', ''A'', ip])
    \<and> named_conf s =
        join NL
          ([[],
            ''options {'',
            ''    directory '' @ [CHR 0x22] @ ''/etc/bind'' @ [CHR 0x22] @ '';'',
            ''    listen-on port 53 { any; };'',
            ''    allow-query { any; };'',
            ''    recursion no;'',
            ''};'',
            []]
           @ map zone_entry (keys (dns_records s)) @ [''            ''])
    \<and> zone_entry domain \<in> set (map zone_entry (keys (dns_records s)))
    \<and> zone_entry domain =
        ''zone '' @ [CHR 0x22] @ domain @ [CHR 0x22] @ '' { type master; file '' @ [CHR 0x22]
          @ ''/etc/bind/db.'' @ domain @ [CHR 0x22] @ ''; };''
    \<and> distinct (map zone_entry (keys (dns_records s)))
    \<and> length (map zone_entry (keys (dns_records s))) = length (keys (dns_records s))"
proof -
  have z: "generate_zone_file now domain s =
      Inr (join NL
        ([''; Zone file for '' @ domain,
          ''$TTL 86400'',
          ''@ IN SOA ns.'' @ domain @ ''. admin.'' @ domain @ ''. ('',
          ''    '' @ str_nat (get_serial now),
          ''    3600'',
          ''    900'',
          ''    604800'',
          ''    86400 )'',
          [],
          ''@       IN NS  ns.'' @ domain @ ''.'',
          ''ns      IN A   '' @ ip,
          []]
         @ map record_line recs @ [[]]))"
    using assms(1,2,3)
    by (simp add: generate_zone_file_def zone_header_def str_public_ip_def join_append join_Cons)
  have l: "\<forall>p \<in> set recs. record_line p =
           fst p @ replicate (30 - length (fst p)) CHR '' '' @ '' IN A '' @ snd p
           \<and> 30 \<le> length (ljust 30 (fst p))"
    by (auto simp: record_line_def ljust_def)
  have ns: "CHR '' '' \<notin> set domain \<longrightarrow>
          fields (''@       IN NS  ns.'' @ domain @ ''.'') = [''@'', ''IN'', ''NS'', ''ns.'' @ domain @ ''.'']"
    by (simp add: fields_def split_no_sep)
  have gl: "CHR '' '' \<notin> set ip \<longrightarrow>
          fields (''ns      IN A   '' @ ip) = filter (\<lambda>w. w \<noteq> []) [''ns'', ''IN'', ''A'', ip]"
    by (simp add: fields_def split_no_sep)
  have dom: "domain \<in> set (keys (dns_records s))"
    using assms(1) by (auto simp: dict_get_def keys_def dest: map_of_SomeD intro: rev_image_eqI)
  then have ne: "keys (dns_records s) \<noteq> []" by auto
  have nc: "named_conf s =
        join NL
          ([[],
            ''options {'',
            ''    directory '' @ [CHR 0x22] @ ''/etc/bind'' @ [CHR 0x22] @ '';'',
            ''    listen-on port 53 { any; };'',
            ''    allow-query { any; };'',
            ''    recursion no;'',
            ''};'',
            []]
           @ map zone_entry (keys (dns_records s)) @ [''            ''])"
    using ne by (simp add: named_conf_def generate_zone_entries_def join_append join_Cons)
  have ze: "zone_entry domain =
        ''zone '' @ [CHR 0x22] @ domain @ [CHR 0x22] @ '' { type master; file '' @ [CHR 0x22]
          @ ''/etc/bind/db.'' @ domain @ [CHR 0x22] @ ''; };''"
    by (simp add: zone_entry_def)
  have di: "distinct (map zone_entry (keys (dns_records s)))"
    using assms(4) by (simp add: distinct_map inj_on_def zone_entry_inj)
  have me: "zone_entry domain \<in> set (map zone_entry (keys (dns_records s)))"
    using dom by simp
  have len: "length (map zone_entry (keys (dns_records s))) = length (keys (dns_records s))"
    by simp
  show ?thesis
    by (intro conjI z l ns gl nc me ze di len)
qed

lemma str_nat_get_serial:
  assumes "0 < year now" "month now < 100" "day now < 100" "hour now < 100"
  shows "str_nat (get_serial now) = strftime_YmdH now"
  by (simp add: get_serial_def strftime_is_str_nat [OF assms] int_of_digits_str_nat)

theorem render_zone_and_config_witness:
  "dict_get (dns_records state_two_zones) ''mistral.ai'' = Some [(''chat.mistral.ai'', ''198.255.15.6'')]
   \<and> public_ip state_two_zones = Some ''203.0.113.9''
   \<and> distinct (keys (dns_records state_two_zones))
   \<and> generate_zone_file noon ''mistral.ai'' state_two_zones =
       Inr ''; Zone file for mistral.ai\<newline>$TTL 86400\<newline>@ IN SOA ns.mistral.ai. admin.mistral.ai. (\<newline>    2024030712\<newline>    3600\<newline>    900\<newline>    604800\<newline>    86400 )\<newline>\<newline>@       IN NS  ns.mistral.ai.\<newline>ns      IN A   203.0.113.9\<newline>\<newline>chat.mistral.ai                IN A 198.255.15.6\<newline>''
   \<and> fields ''@       IN NS  ns.mistral.ai.'' = [''@'', ''IN'', ''NS'', ''ns.mistral.ai.'']
   \<and> fields ''ns      IN A   203.0.113.9'' = [''ns'', ''IN'', ''A'', ''203.0.113.9'']"
proof -
  have h1: "dict_get (dns_records state_two_zones) ''mistral.ai'' = Some [(''chat.mistral.ai'', ''198.255.15.6'')]"
    by (simp add: state_two_zones_def state0_def dict_get_def)
  have h2: "[(''chat.mistral.ai'', ''198.255.15.6'')] \<noteq> []" by simp
  have h3: "public_ip state_two_zones = Some ''203.0.113.9''"
    by (simp add: state_two_zones_def state0_def)
  have h4: "distinct (keys (dns_records state_two_zones))"
    by (simp add: state_two_zones_def state0_def keys_def)
  have sp: "CHR '' '' \<notin> set ''mistral.ai''" "CHR '' '' \<notin> set ''203.0.113.9''"
    by simp_all
  have ser: "str_nat (get_serial noon) = ''2024030712''"
  proof -
    have "str_nat (get_serial noon) = strftime_YmdH noon"
      by (rule str_nat_get_serial) (simp_all add: noon_def)
    also have "\<dots> = ''2024030712''" by code_simp
    finally show ?thesis .
  qed
  have rl: "record_line (''chat.mistral.ai'', ''198.255.15.6'') =
      ''chat.mistral.ai                IN A 198.255.15.6''"
    by code_simp
  note th = render_zone_and_config [OF h1 h2 h3 h4, of noon]
  from th have z: "generate_zone_file noon ''mistral.ai'' state_two_zones =
       Inr ''; Zone file for mistral.ai\<newline>$TTL 86400\<newline>@ IN SOA ns.mistral.ai. admin.mistral.ai. (\<newline>    2024030712\<newline>    3600\<newline>    900\<newline>    604800\<newline>    86400 )\<newline>\<newline>@       IN NS  ns.mistral.ai.\<newline>ns      IN A   203.0.113.9\<newline>\<newline>chat.mistral.ai                IN A 198.255.15.6\<newline>''"
    by (simp add: ser rl NL_def)
  from th sp have f1: "fields ''@       IN NS  ns.mistral.ai.'' = [''@'', ''IN'', ''NS'', ''ns.mistral.ai.'']"
    by simp
  from th sp have f2: "fields ''ns      IN A   203.0.113.9'' = [''ns'', ''IN'', ''A'', ''203.0.113.9'']"
    by simp
  show ?thesis
    by (intro conjI h1 h3 h4 z f1 f2)
qed

subsection \<open>Grouping by apex domain\<close>

lemma keys_dict_set:
  "keys (dict_set k v d) = (if k \<in> set (keys d) then keys d else keys d @ [k])"
  by (induction d) (force simp: keys_def)+

lemma dict_get_dict_set:
  "dict_get (dict_set k v d) k' = (if k' = k then Some v else dict_get d k')"
  by (induction d) (auto simp: dict_get_def)

lemma dict_set_fresh: "k \<notin> set (keys d) \<Longrightarrow> dict_set k v d = d @ [(k, v)]"
  by (induction d) (auto simp: keys_def)

lemma distinct_dict_set: "distinct (keys d) \<Longrightarrow> distinct (keys (dict_set k v d))"
  by (simp add: keys_dict_set)

lemma parse_records_Inr:
  assumes "parse_records es acc = Inr recs"
  shows "recs = foldl (\<lambda>a x. dict_set (entry_host x) (entry_ip x) a) acc es"
  using assms
  by (induction es arbitrary: acc)
     (auto simp: entry_host_def entry_ip_def split: if_splits prod.splits)

lemma foldl_dict_set_distinct:
  "distinct (keys acc) \<Longrightarrow>
     distinct (keys (foldl (\<lambda>a x. dict_set (entry_host x) (entry_ip x) a) acc es))"
  by (induction es arbitrary: acc) (simp_all add: distinct_dict_set)

lemma foldl_dict_set_other:
  assumes "\<forall>x \<in> set es. entry_host x \<noteq> k"
  shows "dict_get (foldl (\<lambda>a x. dict_set (entry_host x) (entry_ip x) a) acc es) k = dict_get acc k"
  using assms by (induction es arbitrary: acc) (auto simp: dict_get_dict_set)

lemma parse_records_last:
  assumes "parse_records (pre @ entry # post) [] = Inr records"
    and "\<forall>x \<in> set post. entry_host x \<noteq> entry_host entry"
  shows "distinct (keys records)"
    and "(entry_host entry, entry_ip entry) \<in> set records"
proof -
  note r = parse_records_Inr [OF assms(1)]
  show "distinct (keys records)"
    unfolding r by (rule foldl_dict_set_distinct) (simp add: keys_def)
  have "dict_get records (entry_host entry) = Some (entry_ip entry)"
    unfolding r using foldl_dict_set_other [OF assms(2)] by (simp add: dict_get_dict_set)
  then show "(entry_host entry, entry_ip entry) \<in> set records"
    by (simp add: dict_get_def map_of_SomeD)
qed

lemma organize_snoc:
  "organize (rs @ [p]) d = organize_step (organize rs d) p"
  by (simp add: organize_def)

lemma organize_get:
  assumes "distinct (keys records)"
  shows "dict_get (organize records []) domain =
           (if domain \<in> apex ` set (keys records) then Some (apex_records domain records) else None)"
  using assms
proof (induction records arbitrary: domain rule: rev_induct)
  case Nil
  then show ?case by (simp add: organize_def dict_get_def keys_def)
next
  case (snoc p rs)
  obtain r ip where p: "p = (r, ip)" by (cases p)
  have d: "distinct (keys rs)" and fresh: "r \<notin> set (keys rs)"
    using snoc.prems by (simp_all add: keys_def p)
  note IH = snoc.IH [OF d]
  let ?old = "case dict_get (organize rs []) (apex r) of None \<Rightarrow> [] | Some recs \<Rightarrow> recs"
  have old: "?old = apex_records (apex r) rs"
  proof (cases "apex r \<in> apex ` set (keys rs)")
    case True
    then show ?thesis by (simp add: IH)
  next
    case False
    then have "filter (\<lambda>p. apex (fst p) = apex r) rs = []"
      by (force simp: filter_empty_conv keys_def image_iff)
    with False show ?thesis by (simp add: IH apex_records_def)
  qed
  have "r \<notin> set (keys (apex_records (apex r) rs))"
    using fresh by (auto simp: apex_records_def keys_def)
  then have new: "dict_set r ip (apex_records (apex r) rs) = apex_records (apex r) (rs @ [p])"
    by (simp add: dict_set_fresh apex_records_def p)
  have step: "organize (rs @ [p]) [] =
                dict_set (apex r) (apex_records (apex r) (rs @ [p])) (organize rs [])"
    unfolding organize_snoc by (simp add: organize_step_def p old new Let_def)
  show ?case
  proof (cases "domain = apex r")
    case True
    then show ?thesis by (simp add: step [unfolded p] dict_get_dict_set p keys_def)
  next
    case False
    then show ?thesis
      by (auto simp: step [unfolded p] dict_get_dict_set IH p keys_def apex_records_def)
  qed
qed

lemma filter_key_distinct:
  assumes "distinct (map fst xs)" and "(k, v) \<in> set xs"
  shows "filter (\<lambda>p. fst p = k) xs = [(k, v)]"
  using assms
proof (induction xs)
  case (Cons x xs)
  show ?case
  proof (cases "fst x = k")
    case True
    then have "k \<notin> fst ` set xs" using Cons.prems by auto
    then have "filter (\<lambda>p. fst p = k) xs = []"
      by (auto simp: filter_empty_conv)
    moreover have "x = (k, v)"
      using Cons.prems True \<open>k \<notin> fst ` set xs\<close> by (cases x) force
    ultimately show ?thesis by simp
  next
    case False
    then show ?thesis using Cons by auto
  qed
qed simp

lemma last_two_long:
  assumes "2 \<le> length xs"
  shows "last_two xs = [xs ! (length xs - 2), last xs]"
proof -
  obtain zs b where 1: "xs = zs @ [b]"
    using assms by (cases xs rule: rev_cases) auto
  then obtain ys a where 2: "zs = ys @ [a]"
    using assms by (cases zs rule: rev_cases) auto
  have xs: "xs = ys @ [a, b]" by (simp add: 1 2)
  show ?thesis by (simp add: xs last_two_def nth_append)
qed

text \<open>
  Claim C4.  Let the arguments parse to the record map \<open>records\<close>, and let \<open>entry\<close>
  be the last argument that names its hostname \<open>h\<close>, the hostname of an argument being
  what \<open>main\<close> makes of it: the text before the first \<open>=\<close> without the white space
  that \<open>str.strip\<close> removes at both ends (so \<open>a.example.com\<close> followed by a no-break
  space is \<open>a.example.com\<close>; the arguments are strings of code points below 256, as
  all strings here).  In the model built from
  \<open>records\<close>, the apex domain of \<open>h\<close> (for a hostname of two labels or more: its last
  two labels joined by a dot) owns the records of the input whose hostname has that apex,
  in input order.  Among them exactly one record has the hostname \<open>h\<close>, and it carries
  the address of \<open>entry\<close>, so the zone file of the apex, which prints one line per record
  of this mapping, has exactly one A record for \<open>h\<close>, with the last address.  Every
  hostname of the input with the same last two labels is in the same mapping.
\<close>

theorem grouping_last_write_wins:
  assumes "parse_records (pre @ entry # post) [] = Inr records"
    and "\<forall>x \<in> set post. entry_host x \<noteq> entry_host entry"
    and "dns_records s = organize records []"
  shows "let h = entry_host entry; recs = apex_records (apex h) records in
      dict_get (dns_records s) (apex h) = Some recs
    \<and> filter (\<lambda>p. fst p = h) recs = [(h, entry_ip entry)]
    \<and> generate_zone_file now (apex h) s =
          Inr (zone_header now (apex h) s @ join NL (map record_line recs) @ NL)
    \<and> (\<forall>h' \<in> set (keys records).
          last_two (split CHR ''.'' h') = last_two (split CHR ''.'' h) \<longrightarrow> h' \<in> set (keys recs))
    \<and> (2 \<le> length (split CHR ''.'' h) \<longrightarrow>
          apex h = split CHR ''.'' h ! (length (split CHR ''.'' h) - 2) @ ''.'' @ last (split CHR ''.'' h))"
proof -
  let ?h = "entry_host entry"
  let ?recs = "apex_records (apex ?h) records"
  note pl = parse_records_last [OF assms(1,2)]
  have inr: "?h \<in> set (keys records)"
    using pl(2) by (auto simp: keys_def intro: rev_image_eqI)
  have g: "dict_get (dns_records s) (apex ?h) = Some ?recs"
    using inr by (simp add: assms(3) organize_get [OF pl(1)])
  have inrecs: "(?h, entry_ip entry) \<in> set ?recs"
    using pl(2) by (simp add: apex_records_def)
  have dr: "distinct (map fst ?recs)"
    using pl(1) by (simp add: apex_records_def keys_def distinct_map_filter)
  have one: "filter (\<lambda>p. fst p = ?h) ?recs = [(?h, entry_ip entry)]"
    using filter_key_distinct [OF dr inrecs] .
  have z: "generate_zone_file now (apex ?h) s =
          Inr (zone_header now (apex ?h) s @ join NL (map record_line ?recs) @ NL)"
    by (simp add: generate_zone_file_def g)
  have same: "\<forall>h' \<in> set (keys records).
          last_two (split CHR ''.'' h') = last_two (split CHR ''.'' ?h) \<longrightarrow> h' \<in> set (keys ?recs)"
    by (auto simp: keys_def apex_records_def apex_def intro: rev_image_eqI)
  have two: "2 \<le> length (split CHR ''.'' ?h) \<longrightarrow>
          apex ?h = split CHR ''.'' ?h ! (length (split CHR ''.'' ?h) - 2) @ ''.'' @ last (split CHR ''.'' ?h)"
    by (simp add: apex_def last_two_long)
  show ?thesis
    unfolding Let_def by (intro conjI g one z same two)
qed

theorem grouping_last_write_wins_witness:
  "parse_records ([''a.example.com=1.1.1.1'', ''b.example.com=3.3.3.3''] @ entry_nbsp # []) []
     = Inr [(''a.example.com'', ''2.2.2.2''), (''b.example.com'', ''3.3.3.3'')]
   \<and> dns_records state_twice =
        organize [(''a.example.com'', ''2.2.2.2''), (''b.example.com'', ''3.3.3.3'')] []
   \<and> entry_host entry_nbsp = ''a.example.com''
   \<and> entry_ip entry_nbsp = ''2.2.2.2''
   \<and> apex ''a.example.com'' = ''example.com''
   \<and> dict_get (dns_records state_twice) ''example.com'' =
        Some [(''a.example.com'', ''2.2.2.2''), (''b.example.com'', ''3.3.3.3'')]
   \<and> filter (\<lambda>p. fst p = ''a.example.com'')
        [(''a.example.com'', ''2.2.2.2''), (''b.example.com'', ''3.3.3.3'')] = [(''a.example.com'', ''2.2.2.2'')]
   \<and> generate_zone_file noon ''example.com'' state_twice =
        Inr (zone_header noon ''example.com'' state_twice
             @ ''a.example.com                  IN A 2.2.2.2\<newline>b.example.com                  IN A 3.3.3.3\<newline>'')"
proof -
  let ?records = "[(''a.example.com'', ''2.2.2.2''), (''b.example.com'', ''3.3.3.3'')]"
  have h1: "parse_records ([''a.example.com=1.1.1.1'', ''b.example.com=3.3.3.3''] @ entry_nbsp # []) []
     = Inr ?records"
    by code_simp
  have h2: "\<forall>x \<in> set []. entry_host x \<noteq> entry_host entry_nbsp"
    by simp
  have h3: "dns_records state_twice = organize ?records []"
    by (simp add: state_twice_def)
  have e1: "entry_host entry_nbsp = ''a.example.com''" by code_simp
  have e2: "entry_ip entry_nbsp = ''2.2.2.2''" by code_simp
  have e3: "apex ''a.example.com'' = ''example.com''" by code_simp
  have e4: "apex_records ''example.com'' ?records = ?records" by code_simp
  have e5: "join NL (map record_line ?records) @ NL =
      ''a.example.com                  IN A 2.2.2.2\<newline>b.example.com                  IN A 3.3.3.3\<newline>''"
    by code_simp
  note th = grouping_last_write_wins [OF h1 h2 h3, of noon, unfolded Let_def e1 e2 e3 e4]
  from th have c1: "dict_get (dns_records state_twice) ''example.com'' = Some ?records"
    by blast
  from th have c2: "filter (\<lambda>p. fst p = ''a.example.com'') ?records = [(''a.example.com'', ''2.2.2.2'')]"
    by blast
  from th have "generate_zone_file noon ''example.com'' state_twice =
        Inr (zone_header noon ''example.com'' state_twice @ join NL (map record_line ?records) @ NL)"
    by blast
  then have c3: "generate_zone_file noon ''example.com'' state_twice =
        Inr (zone_header noon ''example.com'' state_twice
             @ ''a.example.com                  IN A 2.2.2.2\<newline>b.example.com                  IN A 3.3.3.3\<newline>'')"
    by (simp only: e5)
  show ?thesis
    by (intro conjI h1 h3 e1 e2 e3 c1 c2 c3)
qed

subsection \<open>The stages of a run\<close>

lemma calls_append: "calls (xs @ ys) = calls xs @ calls ys"
  by (simp add: calls_def)

lemma run_command_spec:
  assumes "run_command e cmd s = (r, s')"
  shows "s' = s\<lparr>trace := trace s @ [Shell cmd]\<rparr>" and "\<And>x. r = Inl x \<Longrightarrow> \<exists>m. x = DNSConfigError m"
  using assms by (auto simp: run_command_def emit_def Let_def split: cmd_result.splits)

lemma get_public_ip_spec:
  assumes "get_public_ip e s = (r, s')"
  shows "\<exists>evs. trace s' = trace s @ evs \<and> (\<forall>ev \<in> set evs. stage ev = 1)
           \<and> (\<forall>x. r = Inl x \<longrightarrow> start_exn x) \<and> unchanged s s' \<and> public_ip s' = public_ip s"
  using assms
  by (auto simp: get_public_ip_def run_command_def emit_def Let_def unchanged_def
      split: http_result.splits cmd_result.splits)

lemma resolve_ip_spec:
  assumes "resolve_ip e s = (r, s')"
  shows "\<exists>evs. trace s' = trace s @ evs \<and> (\<forall>ev \<in> set (calls evs). stage ev = 1)
           \<and> (\<forall>x. r = Inl x \<longrightarrow> start_exn x) \<and> unchanged s s'"
proof -
  obtain r1 s1 where g: "get_public_ip e s = (r1, s1)" by (cases "get_public_ip e s")
  from get_public_ip_spec [OF g] obtain evs where
    s1: "trace s1 = trace s @ evs" "unchanged s s1" and st: "\<forall>ev \<in> set evs. stage ev = 1"
    and ex: "\<forall>x. r1 = Inl x \<longrightarrow> start_exn x" by blast
  show ?thesis
  proof (cases r1)
    case (Inl x)
    then have "r = Inl x" "s' = s1" using assms g by (simp_all add: resolve_ip_def)
    then show ?thesis using s1 st ex Inl by (auto simp: calls_def)
  next
    case (Inr ip)
    then have "r = Inr ()" "s' = emit (Stdout (''Public IP detected: '' @ ip)) (s1\<lparr>public_ip := Some ip\<rparr>)"
      using assms g by (simp_all add: resolve_ip_def)
    then show ?thesis using s1 st
      by (intro exI [of _ "evs @ [Stdout (''Public IP detected: '' @ ip)]"])
         (auto simp: calls_def emit_def unchanged_def)
  qed
qed

lemma setup_docker_spec:
  assumes "setup_docker e s = (r, s')"
  shows "\<exists>evs. trace s' = trace s @ evs \<and> (\<forall>ev \<in> set (calls evs). stage ev = 2)
           \<and> (\<forall>x. r = Inl x \<longrightarrow> start_exn x) \<and> unchanged s s'"
proof -
  have n: "''docker ps'' \<noteq> ip_fallback_cmd"
    "''curl -fsSL https://get.docker.com | sh'' \<noteq> ip_fallback_cmd"
    "''systemctl enable --now docker'' \<noteq> ip_fallback_cmd"
    by (simp_all add: ip_fallback_cmd_def)
  show ?thesis
    using assms n
    by (auto simp: setup_docker_def run_command_def emit_def Let_def calls_def unchanged_def
        split: cmd_result.splits)
qed

lemma docker_from_env_spec:
  assumes "docker_from_env e s = (r, s')"
  shows "\<exists>evs. trace s' = trace s @ evs \<and> (\<forall>ev \<in> set (calls evs). stage ev = 2)
           \<and> (\<forall>x. r = Inl x \<longrightarrow> start_exn x) \<and> unchanged s s'"
  using assms
  by (auto simp: docker_from_env_def emit_def Let_def calls_def unchanged_def split: option.splits)

lemma pull_from_spec:
  "pull_from e a s = (r, s') \<Longrightarrow>
     \<exists>evs. trace s' = trace s @ evs \<and> (\<forall>ev \<in> set (calls evs). stage ev = 3)
           \<and> (\<forall>x. r = Inl x \<longrightarrow> start_exn x) \<and> unchanged s s'"
proof (induction e a s arbitrary: r s' rule: pull_from.induct)
  case (1 e attempt s)
  show ?case
  proof (cases "max_retries \<le> attempt")
    case True
    then have "r = Inr ()" "s' = s" using "1.prems" by (simp_all add: pull_from.simps)
    then show ?thesis by (intro exI [of _ "[]"]) (simp add: calls_def unchanged_def)
  next
    case False
    let ?s1 = "emit (ImagesPull docker_image) s"
    show ?thesis
    proof (cases "images_pull e attempt")
      case PullOk
      then have "r = Inr ()" "s' = ?s1" using "1.prems" False by (simp_all add: pull_from.simps)
      then show ?thesis
        by (intro exI [of _ "[ImagesPull docker_image]"]) (simp add: calls_def emit_def unchanged_def)
    next
      case ImageNotFound
      then have "r = Inl (DockerError (''Image '' @ docker_image @ '' not found''))" "s' = ?s1"
        using "1.prems" False by (simp_all add: pull_from.simps)
      then show ?thesis
        by (intro exI [of _ "[ImagesPull docker_image]"]) (simp add: calls_def emit_def unchanged_def)
    next
      case PullInterrupted
      then have "r = Inl KeyboardInterrupt" "s' = ?s1"
        using "1.prems" False by (simp_all add: pull_from.simps)
      then show ?thesis
        by (intro exI [of _ "[ImagesPull docker_image]"]) (simp add: calls_def emit_def unchanged_def)
    next
      case (PullAPIError m)
      show ?thesis
      proof (cases "attempt = max_retries - 1")
        case True
        then have "r = Inl (DockerError (''Failed to pull image: '' @ m))" "s' = ?s1"
          using "1.prems" False PullAPIError by (simp_all add: pull_from.simps)
        then show ?thesis
          by (intro exI [of _ "[ImagesPull docker_image]"]) (simp add: calls_def emit_def unchanged_def)
      next
        case last: False
        let ?s2 = "emit (Stdout (retry_notice attempt)) ?s1"
        have rec: "pull_from e (Suc attempt) ?s2 = (r, s')"
          using "1.prems" False PullAPIError last by (simp add: pull_from.simps [of e attempt])
        from "1.IH" [OF False refl PullAPIError last rec] obtain evs where
          "trace s' = trace ?s2 @ evs" "\<forall>ev \<in> set (calls evs). stage ev = 3"
          "\<forall>x. r = Inl x \<longrightarrow> start_exn x" "unchanged ?s2 s'" by blast
        then show ?thesis
          by (intro exI [of _ "[ImagesPull docker_image, Stdout (retry_notice attempt)] @ evs"])
             (simp add: calls_def emit_def unchanged_def)
      qed
    qed
  qed
qed

lemma pull_bind_image_spec:
  assumes "pull_bind_image e s = (r, s')"
  shows "\<exists>evs. trace s' = trace s @ evs \<and> (\<forall>ev \<in> set (calls evs). stage ev = 3)
           \<and> (\<forall>x. r = Inl x \<longrightarrow> start_exn x) \<and> unchanged s s'"
  using assms unfolding pull_bind_image_def by (rule pull_from_spec)

lemma write_zones_spec:
  "write_zones e i ds s = (r, s') \<Longrightarrow>
     \<exists>evs. trace s' = trace s @ evs \<and> (\<forall>ev \<in> set (calls evs). stage ev = 4)
       \<and> (\<forall>x. r = Inl x \<longrightarrow> (\<exists>m. x = PermissionError m) \<or> (\<exists>m. x = OSError m) \<or> start_exn x)
       \<and> dns_records s' = dns_records s \<and> public_ip s' = public_ip s
       \<and> containers s' = containers s \<and> next_id s' = next_id s
       \<and> (\<forall>p. files s p \<noteq> None \<longrightarrow> files s' p \<noteq> None)
       \<and> (r = Inr () \<longrightarrow> (\<forall>d \<in> set ds. files s' (zone_path d) \<noteq> None))"
proof (induction ds arbitrary: i s)
  case Nil
  then show ?case by (intro exI [of _ "[]"]) (auto simp: calls_def)
next
  case (Cons d ds)
  show ?case
  proof (cases "generate_zone_file (utcnow e i) d s")
    case (Inl x)
    then have "r = Inl x" "s' = s" using Cons.prems by simp_all
    moreover have "start_exn x"
      using Inl by (auto simp: generate_zone_file_def Let_def split: option.splits)
    ultimately show ?thesis by (intro exI [of _ "[]"]) (auto simp: calls_def)
  next
    case (Inr z)
    show ?thesis
    proof (cases "write_result e (zone_path d) = OsOk")
      case False
      from write_text_fail [OF False, of z s]
      have "r = Inl (os_exn (write_result e (zone_path d)))"
        "s' = s\<lparr>trace := trace s @ [WriteText (zone_path d)],
                 files := (files s)(zone_path d :=
                            after_failed_write e (zone_path d) z (files s (zone_path d)))\<rparr>"
        using Cons.prems Inr by simp_all
      moreover from os_exn_kinds [OF False]
      have "(\<exists>m. os_exn (write_result e (zone_path d)) = PermissionError m)
          \<or> (\<exists>m. os_exn (write_result e (zone_path d)) = OSError m)
          \<or> start_exn (os_exn (write_result e (zone_path d)))"
        by auto
      ultimately show ?thesis
        by (intro exI [of _ "[WriteText (zone_path d)]"])
           (auto simp: calls_def after_failed_write_mono)
    next
      case True
      let ?s1 = "s\<lparr>trace := trace s @ [WriteText (zone_path d)], files := (files s)(zone_path d \<mapsto> z)\<rparr>"
      have rec: "write_zones e (Suc i) ds ?s1 = (r, s')"
        using Cons.prems Inr write_text_ok [OF True, of z s] by simp
      from Cons.IH [OF rec] obtain evs where
        t: "trace s' = trace ?s1 @ evs" and st: "\<forall>ev \<in> set (calls evs). stage ev = 4"
        and ex: "\<forall>x. r = Inl x \<longrightarrow> (\<exists>m. x = PermissionError m) \<or> (\<exists>m. x = OSError m) \<or> start_exn x"
        and fr: "dns_records s' = dns_records ?s1" "public_ip s' = public_ip ?s1"
          "containers s' = containers ?s1" "next_id s' = next_id ?s1"
        and mono: "\<forall>p. files ?s1 p \<noteq> None \<longrightarrow> files s' p \<noteq> None"
        and ok: "r = Inr () \<longrightarrow> (\<forall>d \<in> set ds. files s' (zone_path d) \<noteq> None)"
        by blast
      have here: "files s' (zone_path d) \<noteq> None" using mono by simp
      have mono': "\<forall>p. files s p \<noteq> None \<longrightarrow> files s' p \<noteq> None" using mono by simp
      show ?thesis
        using t st ex fr mono' ok here
        by (intro exI [of _ "WriteText (zone_path d) # evs"]) (auto simp: calls_def)
    qed
  qed
qed

lemma generate_zone_files_spec:
  assumes "generate_zone_files e s = (r, s')"
  shows "\<exists>evs. trace s' = trace s @ evs \<and> (\<forall>ev \<in> set (calls evs). stage ev = 4)
       \<and> (\<forall>x. r = Inl x \<longrightarrow> start_exn x)
       \<and> dns_records s' = dns_records s \<and> public_ip s' = public_ip s
       \<and> containers s' = containers s \<and> next_id s' = next_id s
       \<and> (r = Inr () \<longrightarrow> files s' named_conf_path \<noteq> None
             \<and> (\<forall>d \<in> set (keys (dns_records s)). files s' (zone_path d) \<noteq> None))"
proof -
  obtain rb sb where b: "generate_zone_files_body e s = (rb, sb)"
    by (cases "generate_zone_files_body e s")
  have s': "s' = sb" and r: "r = (case rb of Inl (PermissionError m) \<Rightarrow> Inl (DNSConfigError (''Permission denied: '' @ m))
        | Inl (OSError m) \<Rightarrow> Inl (DNSConfigError (''File system error: '' @ m)) | _ \<Rightarrow> rb)"
    using assms b by (auto simp: generate_zone_files_def split: sum.splits exn.splits)
  have body: "\<exists>evs. trace sb = trace s @ evs \<and> (\<forall>ev \<in> set (calls evs). stage ev = 4)
       \<and> (\<forall>x. rb = Inl x \<longrightarrow> (\<exists>m. x = PermissionError m) \<or> (\<exists>m. x = OSError m) \<or> start_exn x)
       \<and> dns_records sb = dns_records s \<and> public_ip sb = public_ip s
       \<and> containers sb = containers s \<and> next_id sb = next_id s
       \<and> (rb = Inr () \<longrightarrow> files sb named_conf_path \<noteq> None
             \<and> (\<forall>d \<in> set (keys (dns_records s)). files sb (zone_path d) \<noteq> None))"
  proof (cases "mkdir_result e = OsOk")
    case False
    from mkdir_fail [OF False, of volume_path True True s]
    have "sb = s\<lparr>trace := trace s @ [Mkdir volume_path True True]\<rparr>"
      and "rb = Inl (os_exn (mkdir_result e))"
      using b by (simp_all add: generate_zone_files_body_def)
    moreover from os_exn_kinds [OF False]
    have "(\<exists>m. os_exn (mkdir_result e) = PermissionError m)
        \<or> (\<exists>m. os_exn (mkdir_result e) = OSError m)
        \<or> start_exn (os_exn (mkdir_result e))"
      by auto
    ultimately show ?thesis
      by (intro exI [of _ "[Mkdir volume_path True True]"]) (auto simp: calls_def)
  next
    case mk: True
    let ?s1 = "s\<lparr>trace := trace s @ [Mkdir volume_path True True],
                 dirs := dirs_with volume_path (dirs s)\<rparr>"
    have m: "mkdir e volume_path True True s = (Inr (), ?s1)"
      by (rule mkdir_ok [OF mk])
    show ?thesis
    proof (cases "write_result e named_conf_path = OsOk")
      case False
      from write_text_fail [OF False, of "named_conf ?s1" ?s1]
      have "rb = Inl (os_exn (write_result e named_conf_path))"
        "sb = ?s1\<lparr>trace := trace ?s1 @ [WriteText named_conf_path],
                   files := (files ?s1)(named_conf_path :=
                              after_failed_write e named_conf_path (named_conf ?s1)
                                (files ?s1 named_conf_path))\<rparr>"
        using b m by (simp_all add: generate_zone_files_body_def)
      moreover from os_exn_kinds [OF False]
      have "(\<exists>m. os_exn (write_result e named_conf_path) = PermissionError m)
          \<or> (\<exists>m. os_exn (write_result e named_conf_path) = OSError m)
          \<or> start_exn (os_exn (write_result e named_conf_path))"
        by auto
      ultimately show ?thesis
        by (intro exI [of _ "[Mkdir volume_path True True, WriteText named_conf_path]"]) (auto simp: calls_def)
    next
      case True
      let ?s2 = "?s1\<lparr>trace := trace ?s1 @ [WriteText named_conf_path],
                   files := (files ?s1)(named_conf_path \<mapsto> named_conf ?s1)\<rparr>"
      have wz: "write_zones e 0 (keys (dns_records s)) ?s2 = (rb, sb)"
        using b m write_text_ok [OF True, of "named_conf ?s1" ?s1]
        by (simp add: generate_zone_files_body_def)
      from write_zones_spec [OF wz] obtain evs where
        t: "trace sb = trace ?s2 @ evs" and st: "\<forall>ev \<in> set (calls evs). stage ev = 4"
        and ex: "\<forall>x. rb = Inl x \<longrightarrow> (\<exists>m. x = PermissionError m) \<or> (\<exists>m. x = OSError m) \<or> start_exn x"
        and fr: "dns_records sb = dns_records ?s2" "public_ip sb = public_ip ?s2"
          "containers sb = containers ?s2" "next_id sb = next_id ?s2"
        and mono: "\<forall>p. files ?s2 p \<noteq> None \<longrightarrow> files sb p \<noteq> None"
        and ok: "rb = Inr () \<longrightarrow> (\<forall>d \<in> set (keys (dns_records s)). files sb (zone_path d) \<noteq> None)"
        by blast
      have nc: "files sb named_conf_path \<noteq> None" using mono by simp
      show ?thesis
        using t st ex fr ok nc
        by (intro exI [of _ "[Mkdir volume_path True True, WriteText named_conf_path] @ evs"])
           (auto simp: calls_def)
    qed
  qed
  then obtain evs where
    t: "trace sb = trace s @ evs" and st: "\<forall>ev \<in> set (calls evs). stage ev = 4"
    and ex: "\<forall>x. rb = Inl x \<longrightarrow> (\<exists>m. x = PermissionError m) \<or> (\<exists>m. x = OSError m) \<or> start_exn x"
    and fr: "dns_records sb = dns_records s" "public_ip sb = public_ip s"
      "containers sb = containers s" "next_id sb = next_id s"
    and ok: "rb = Inr () \<longrightarrow> files sb named_conf_path \<noteq> None
             \<and> (\<forall>d \<in> set (keys (dns_records s)). files sb (zone_path d) \<noteq> None)"
    by blast
  have ex': "\<forall>x. r = Inl x \<longrightarrow> start_exn x"
    using ex unfolding r by (auto split: sum.splits exn.splits)
  have ok': "r = Inr () \<longrightarrow> rb = Inr ()"
    unfolding r by (auto split: sum.splits exn.splits)
  show ?thesis
    using t st ex' fr ok ok' unfolding s' by blast
qed

lemma start_container_spec:
  assumes "start_container e s = (r, s')"
  shows "\<exists>evs. trace s' = trace s @ evs \<and> (\<forall>ev \<in> set (calls evs). stage ev = 5)
       \<and> (\<forall>x. r = Inl x \<longrightarrow> start_exn x)
       \<and> files s' = files s \<and> dns_records s' = dns_records s \<and> public_ip s' = public_ip s
       \<and> (r = Inr () \<longrightarrow> ContainersRun docker_image reserved_name \<in> set evs)"
  using assms
  by (auto simp: start_container_def start_container_body_def cleanup_existing_def
      containers_get_def container_remove_def containers_run_def emit_def Let_def calls_def
      split: option.splits if_splits)

lemma start_body_pipeline:
  "start_body e records s =
     (case run_stages (start_stages e records) s of
        (Inl x, s1) \<Rightarrow> (Inl x, s1)
      | (Inr u, s1) \<Rightarrow> (Inr (str_public_ip s1), s1))"
  by (simp add: start_body_def start_stages_def resolve_ip_def build_model_def Let_def
      split: prod.splits sum.splits)

lemma run_stages_append:
  "run_stages (fs @ gs) s =
     (case run_stages fs s of
        (Inl x, s1) \<Rightarrow> (Inl x, s1)
      | (Inr u, s1) \<Rightarrow> run_stages gs s1)"
  by (induction fs arbitrary: s) (auto split: prod.splits sum.splits)

lemma run_stages_abort:
  assumes "run_stages fs s = (Inr (), s0)" and "f s0 = (Inl x, s1)"
  shows "run_stages (fs @ f # gs) s = (Inl x, s1)"
  using assms by (simp add: run_stages_append)

lemma emitsD:
  assumes "emits k f" and "f s = (r, s')"
  obtains evs where "trace s' = trace s @ evs" and "\<forall>ev \<in> set (calls evs). stage ev = k"
  using assms unfolding emits_def by blast

lemma run_stages_sorted:
  assumes "list_all2 emits ks fs" and "sorted ks" and "run_stages fs s = (r, s')"
  shows "\<exists>evs. trace s' = trace s @ evs \<and> sorted (map stage (calls evs))
           \<and> (\<forall>ev \<in> set (calls evs). stage ev \<in> set ks)"
  using assms
proof (induction ks fs arbitrary: s rule: list_all2_induct)
  case Nil
  then show ?case by (intro exI [of _ "[]"]) (simp add: calls_def)
next
  case (Cons k ks f fs)
  obtain r1 s1 where f: "f s = (r1, s1)" by (cases "f s")
  from emitsD [OF Cons.hyps(1) f] obtain evs1 where
    t1: "trace s1 = trace s @ evs1" and st1: "\<forall>ev \<in> set (calls evs1). stage ev = k"
    by blast
  have so1: "sorted (map stage (calls evs1))"
    using st1 by (simp add: sorted_iff_nth_mono)
  show ?case
  proof (cases r1)
    case (Inl x)
    then have "s' = s1" using Cons.prems f by simp
    then show ?thesis using t1 st1 so1 by (intro exI [of _ evs1]) auto
  next
    case (Inr u)
    then have rec: "run_stages fs s1 = (r, s')" using Cons.prems f by simp
    have "sorted ks" using Cons.prems by simp
    from Cons.IH [OF this rec] obtain evs2 where
      t2: "trace s' = trace s1 @ evs2" and so2: "sorted (map stage (calls evs2))"
      and st2: "\<forall>ev \<in> set (calls evs2). stage ev \<in> set ks" by blast
    have le: "\<forall>a \<in> set (calls evs1). \<forall>b \<in> set (calls evs2). stage a \<le> stage b"
      using st1 st2 Cons.prems(1) by auto
    show ?thesis
      using t1 t2 so1 so2 le st1 st2
      by (intro exI [of _ "evs1 @ evs2"]) (auto simp: calls_append sorted_append)
  qed
qed

lemma emits_stages:
  "emits 1 (resolve_ip e)" "emits 2 (setup_docker e)" "emits 2 (docker_from_env e)"
  "emits 3 (pull_bind_image e)" "emits 4 (build_model records)"
  "emits 4 (generate_zone_files e)" "emits 5 (start_container e)"
  unfolding emits_def
proof -
  show "\<forall>s r s'. resolve_ip e s = (r, s') \<longrightarrow>
      (\<exists>evs. trace s' = trace s @ evs \<and> (\<forall>ev \<in> set (calls evs). stage ev = 1))"
    using resolve_ip_spec by blast
  show "\<forall>s r s'. setup_docker e s = (r, s') \<longrightarrow>
      (\<exists>evs. trace s' = trace s @ evs \<and> (\<forall>ev \<in> set (calls evs). stage ev = 2))"
    using setup_docker_spec by blast
  show "\<forall>s r s'. docker_from_env e s = (r, s') \<longrightarrow>
      (\<exists>evs. trace s' = trace s @ evs \<and> (\<forall>ev \<in> set (calls evs). stage ev = 2))"
    using docker_from_env_spec by blast
  show "\<forall>s r s'. pull_bind_image e s = (r, s') \<longrightarrow>
      (\<exists>evs. trace s' = trace s @ evs \<and> (\<forall>ev \<in> set (calls evs). stage ev = 3))"
    using pull_bind_image_spec by blast
  show "\<forall>s r s'. build_model records s = (r, s') \<longrightarrow>
      (\<exists>evs. trace s' = trace s @ evs \<and> (\<forall>ev \<in> set (calls evs). stage ev = 4))"
    by (auto simp: build_model_def calls_def)
  show "\<forall>s r s'. generate_zone_files e s = (r, s') \<longrightarrow>
      (\<exists>evs. trace s' = trace s @ evs \<and> (\<forall>ev \<in> set (calls evs). stage ev = 4))"
    using generate_zone_files_spec by blast
  show "\<forall>s r s'. start_container e s = (r, s') \<longrightarrow>
      (\<exists>evs. trace s' = trace s @ evs \<and> (\<forall>ev \<in> set (calls evs). stage ev = 5))"
    using start_container_spec by blast
qed





subsection \<open>A run in which every external step succeeds\<close>

lemma get_public_ip_response:
  "http_get e = HttpResponse status body \<Longrightarrow>
     get_public_ip e s = (Inr body, s\<lparr>trace := trace s @ [HttpGet ''https://api.ipify.org'' 3]\<rparr>)"
  by (simp add: get_public_ip_def emit_def)

lemma setup_docker_ok:
  "shell e ''docker ps'' = CmdOk out \<Longrightarrow>
     setup_docker e s = (Inr (), s\<lparr>trace := trace s @ [Shell ''docker ps'']\<rparr>)"
  by (simp add: setup_docker_def run_command_def emit_def)

lemma docker_from_env_ok:
  "from_env e = None \<Longrightarrow>
     docker_from_env e s = (Inr (), s\<lparr>trace := trace s @ [FromEnv], client := True\<rparr>)"
  by (simp add: docker_from_env_def emit_def)

lemma pull_first_ok:
  "images_pull e 0 = PullOk \<Longrightarrow>
     pull_bind_image e s = (Inr (), s\<lparr>trace := trace s @ [ImagesPull docker_image]\<rparr>)"
  by (simp add: pull_bind_image_def pull_from.simps [of e 0] max_retries_def emit_def)

lemma organize_step_distinct:
  "distinct (keys d) \<Longrightarrow> distinct (keys (organize_step d p))"
  by (cases p) (simp add: organize_step_def Let_def distinct_dict_set)

lemma organize_distinct:
  "distinct (keys d) \<Longrightarrow> distinct (keys (organize records d))"
  unfolding organize_def
  by (induction records arbitrary: d) (simp_all add: organize_step_distinct)

lemma benign_run:
  assumes "benign e"
    and "length (filter (\<lambda>c. cname c = reserved_name) (containers s)) \<le> 1"
    and "distinct (keys (dns_records s))"
    and "http_get e = HttpResponse status ip"
  shows "\<exists>s' cevs. start_body e records s = (Inr ip, s')
     \<and> trace s' = trace s
          @ [HttpGet ''https://api.ipify.org'' 3, Stdout (''Public IP detected: '' @ ip),
             Shell ''docker ps'', FromEnv, ImagesPull docker_image,
             Mkdir volume_path True True, WriteText named_conf_path]
          @ map (\<lambda>d. WriteText (zone_path d)) (keys (organize records (dns_records s)))
          @ cevs
     \<and> (\<forall>ev \<in> set (calls cevs). stage ev = 5)
     \<and> ContainersRun docker_image reserved_name \<in> set cevs
     \<and> files s' named_conf_path \<noteq> None
     \<and> (\<forall>j < length (keys (organize records (dns_records s))).
           files s' (zone_path (keys (organize records (dns_records s)) ! j)) =
             Some (zone_content (utcnow e j) (keys (organize records (dns_records s)) ! j)
                    (s\<lparr>public_ip := Some ip, dns_records := organize records (dns_records s)\<rparr>)))"
proof -
  from assms(1) obtain out where b: "shell e ''docker ps'' = CmdOk out" "from_env e = None"
    "images_pull e 0 = PullOk" "mkdir_result e = OsOk" "\<forall>p. write_result e p = OsOk"
    "get_error e = None" "remove_error e = None" "run_error e = None"
    unfolding benign_def by blast
  let ?ks = "keys (organize records (dns_records s))"
  let ?t5 = "trace s @ [HttpGet ''https://api.ipify.org'' 3, Stdout (''Public IP detected: '' @ ip),
             Shell ''docker ps'', FromEnv, ImagesPull docker_image]"
  let ?s6 = "s\<lparr>public_ip := Some ip, client := True, trace := ?t5,
               dns_records := organize records (dns_records s)\<rparr>"
  have d6: "distinct (keys (dns_records ?s6))"
    using assms(3) by (simp add: organize_distinct)
  have k6: "length (keys (dns_records ?s6)) \<le> length (keys (dns_records ?s6))" by simp
  have w6: "\<forall>j < length (keys (dns_records ?s6)).
      write_result e (zone_path (keys (dns_records ?s6) ! j)) = OsOk" using b(5) by simp
  have n6: "length (keys (dns_records ?s6)) < length (keys (dns_records ?s6)) \<longrightarrow>
      write_result e (zone_path (keys (dns_records ?s6) ! length (keys (dns_records ?s6)))) \<noteq> OsOk"
    by simp
  have nc: "write_result e named_conf_path = OsOk" using b(5) by simp
  from generate_zone_files_run [OF b(4) nc d6 k6 w6 n6] obtain r7 s7 where
    g: "generate_zone_files e ?s6 = (r7, s7)"
    and t7: "trace s7 = trace ?s6 @ [Mkdir volume_path True True, WriteText named_conf_path]
                   @ map (\<lambda>d. WriteText (zone_path d)) (take (Suc (length ?ks)) ?ks)"
    and f7: "files s7 named_conf_path = Some (named_conf ?s6)"
    and z7: "\<forall>j < length ?ks. files s7 (zone_path (?ks ! j)) = Some (zone_content (utcnow e j) (?ks ! j) ?s6)"
    and r7: "r7 = Inr ()"
    by (auto simp: Let_def)
  from generate_zone_files_spec [OF g] have c7: "containers s7 = containers s"
    by auto
  have ok: "get_error e = None \<and> remove_error e = None \<and> run_error e = None
        \<and> length (filter (\<lambda>c. cname c = reserved_name) (containers s7)) \<le> 1"
    using b assms(2) by (simp add: c7)
  obtain r8 s8 where sc: "start_container e s7 = (r8, s8)" by (cases "start_container e s7")
  from start_container_run [of e s7 s7] ok have "fst (start_container e s7) = Inr ()"
    by blast
  then have r8: "r8 = Inr ()" using sc by simp
  from start_container_spec [OF sc] obtain cevs where
    t8: "trace s8 = trace s7 @ cevs" and st8: "\<forall>ev \<in> set (calls cevs). stage ev = 5"
    and f8: "files s8 = files s7" and p8: "public_ip s8 = public_ip s7"
    and l8: "r8 = Inr () \<longrightarrow> ContainersRun docker_image reserved_name \<in> set cevs" by blast
  from generate_zone_files_spec [OF g] have p7: "public_ip s7 = Some ip" by auto
  have pre: "start_body e records s =
      (case generate_zone_files e ?s6 of
         (Inl x, s7) \<Rightarrow> (Inl x, s7)
       | (Inr u, s7) \<Rightarrow>
           (case start_container e s7 of
              (Inl x, s8) \<Rightarrow> (Inl x, s8)
            | (Inr u, s8) \<Rightarrow> (Inr (str_public_ip s8), s8)))"
    by (simp add: start_body_def get_public_ip_response [OF assms(4)] setup_docker_ok [OF b(1)]
        docker_from_env_ok [OF b(2)] pull_first_ok [OF b(3)] emit_def)
  have run: "start_body e records s = (Inr ip, s8)"
    unfolding pre g by (simp add: r7 sc r8 p8 p7 str_public_ip_def)
  have zc: "zone_content now d ?s6 =
       zone_content now d (s\<lparr>public_ip := Some ip, dns_records := organize records (dns_records s)\<rparr>)"
    for now d
    by (rule zone_content_cong) simp_all
  have z8: "\<forall>j < length ?ks. files s8 (zone_path (?ks ! j)) =
      Some (zone_content (utcnow e j) (?ks ! j)
              (s\<lparr>public_ip := Some ip, dns_records := organize records (dns_records s)\<rparr>))"
    using z7 unfolding f8 zc .
  have f8': "files s8 named_conf_path \<noteq> None"
    using f7 by (simp add: f8)
  have t8': "trace s8 = trace s
          @ [HttpGet ''https://api.ipify.org'' 3, Stdout (''Public IP detected: '' @ ip),
             Shell ''docker ps'', FromEnv, ImagesPull docker_image,
             Mkdir volume_path True True, WriteText named_conf_path]
          @ map (\<lambda>d. WriteText (zone_path d)) ?ks @ cevs"
    using t7 t8 by simp
  show ?thesis
    using run t8' st8 f8' z8 l8 r8 by blast
qed

subsection \<open>The order of the stages\<close>

lemma unchanged_trans: "unchanged a b \<Longrightarrow> unchanged b c \<Longrightarrow> unchanged a c"
  by (simp add: unchanged_def)

lemma run_first_stages:
  assumes "run_stages [resolve_ip e, setup_docker e, docker_from_env e, pull_bind_image e] s = (Inr u, s4)"
  shows "unchanged s s4"
proof -
  from assms obtain s1 s2 s3 where
    1: "resolve_ip e s = (Inr (), s1)" and 2: "setup_docker e s1 = (Inr (), s2)"
    and 3: "docker_from_env e s2 = (Inr (), s3)" and 4: "pull_bind_image e s3 = (Inr (), s4)"
    by (auto split: prod.splits sum.splits)
  from resolve_ip_spec [OF 1] setup_docker_spec [OF 2] docker_from_env_spec [OF 3]
    pull_bind_image_spec [OF 4]
  have "unchanged s s1" "unchanged s1 s2" "unchanged s2 s3" "unchanged s3 s4" by blast+
  then show ?thesis by (blast intro: unchanged_trans)
qed

lemma start_body_trace:
  "\<exists>evs. trace (snd (start_body e records s)) = trace s @ evs
      \<and> sorted (map stage (calls evs))
      \<and> ((\<exists>ev \<in> set evs. stage ev = 5) \<longrightarrow>
            files (snd (start_body e records s)) named_conf_path \<noteq> None
            \<and> (\<forall>d \<in> set (keys (organize records (dns_records s))).
                  files (snd (start_body e records s)) (zone_path d) \<noteq> None))"
proof -
  define first where "first = [resolve_ip e, setup_docker e, docker_from_env e, pull_bind_image e]"
  define pre where "pre = first @ [build_model records, generate_zone_files e]"
  have stages: "start_stages e records = pre @ [start_container e]"
    by (simp add: start_stages_def pre_def first_def)
  have em: "list_all2 emits [1, 2, 2, 3, 4, 4] pre"
    unfolding pre_def first_def using emits_stages by simp
  obtain r6 s6 where pre: "run_stages pre s = (r6, s6)" by (cases "run_stages pre s")
  have whole: "start_body e records s =
      (case r6 of
         Inl x \<Rightarrow> (Inl x, s6)
       | Inr u \<Rightarrow>
           (case start_container e s6 of
              (Inl x, s7) \<Rightarrow> (Inl x, s7)
            | (Inr u, s7) \<Rightarrow> (Inr (str_public_ip s7), s7)))"
    unfolding start_body_pipeline stages run_stages_append pre
    by (simp split: sum.splits prod.splits)
  from run_stages_sorted [OF em _ pre] obtain evs6 where
    t6: "trace s6 = trace s @ evs6" and so6: "sorted (map stage (calls evs6))"
    and st6: "\<forall>ev \<in> set (calls evs6). stage ev \<in> set [1, 2, 2, 3, 4, 4]"
    by auto
  have no5: "\<forall>ev \<in> set evs6. stage ev \<noteq> 5"
  proof
    fix ev assume "ev \<in> set evs6"
    show "stage ev \<noteq> 5"
    proof (cases "is_print ev")
      case True
      then show ?thesis by (cases ev) simp_all
    next
      case False
      then have "ev \<in> set (calls evs6)" using \<open>ev \<in> set evs6\<close> by (simp add: calls_def)
      with st6 show ?thesis by auto
    qed
  qed
  show ?thesis
  proof (cases r6)
    case (Inl x)
    then have "start_body e records s = (Inl x, s6)"
      by (simp add: whole)
    then show ?thesis using t6 so6 no5 by (intro exI [of _ evs6]) auto
  next
    case (Inr u)
    obtain r4 s4 where f: "run_stages first s = (r4, s4)" by (cases "run_stages first s")
    have "run_stages pre s =
        (case r4 of Inl x \<Rightarrow> (Inl x, s4)
         | Inr u \<Rightarrow> generate_zone_files e (s4\<lparr>dns_records := organize records (dns_records s4)\<rparr>))"
      unfolding pre_def run_stages_append f
      by (simp add: build_model_def split: sum.splits prod.splits)
    with pre Inr have r4: "r4 = Inr ()"
      and g: "generate_zone_files e (s4\<lparr>dns_records := organize records (dns_records s4)\<rparr>) = (Inr (), s6)"
      by (auto split: sum.splits)
    have u4: "unchanged s s4"
      using run_first_stages f r4 unfolding first_def by blast
    then have d4: "dns_records s4 = dns_records s" by (simp add: unchanged_def)
    from generate_zone_files_spec [OF g] have files6:
      "files s6 named_conf_path \<noteq> None"
      "\<forall>d \<in> set (keys (organize records (dns_records s))). files s6 (zone_path d) \<noteq> None"
      by (auto simp: d4)
    obtain r7 s7 where c: "start_container e s6 = (r7, s7)" by (cases "start_container e s6")
    from start_container_spec [OF c] obtain cevs where
      t7: "trace s7 = trace s6 @ cevs" and st7: "\<forall>ev \<in> set (calls cevs). stage ev = 5"
      and f7: "files s7 = files s6" by blast
    have sn: "snd (start_body e records s) = s7"
      using Inr c by (simp add: whole split: sum.splits)
    have le: "\<forall>a \<in> set (calls evs6). \<forall>b \<in> set (calls cevs). stage a \<le> stage b"
      using st6 st7 by auto
    have so7: "sorted (map stage (calls cevs))"
      using st7 by (simp add: sorted_iff_nth_mono)
    show ?thesis
      unfolding sn using t6 t7 so6 so7 le files6 f7
      by (intro exI [of _ "evs6 @ cevs"]) (auto simp: calls_append sorted_append)
  qed
qed

lemma benign_env_ok: "benign env_ok"
  by (simp add: benign_def env_ok_def env_retry_def)

lemma no_container_state0: "length (filter (\<lambda>c. cname c = reserved_name) (containers state0)) \<le> 1"
  "distinct (keys (dns_records state0))"
  by (simp_all add: state0_def keys_def)

lemma first_stages_notfound:
  "run_stages [resolve_ip env_notfound, setup_docker env_notfound, docker_from_env env_notfound] state0
     = (Inr (), state_connected)"
proof -
  have h: "http_get env_notfound = HttpResponse 200 ''203.0.113.9''"
    "shell env_notfound ''docker ps'' = CmdOk []" "from_env env_notfound = None"
    by (simp_all add: env_notfound_def env_retry_def)
  show ?thesis
    by (simp add: resolve_ip_def get_public_ip_response [OF h(1)] setup_docker_ok [OF h(2)]
        docker_from_env_ok [OF h(3)] emit_def state_connected_def state0_def)
qed

lemma pull_notfound:
  "pull_bind_image env_notfound state_connected =
     (Inl (DockerError ''Image ubuntu/bind9:latest not found''), state_pull_failed)"
  by (simp add: pull_bind_image_def pull_from.simps [of _ 0] max_retries_def emit_def
      env_notfound_def state_connected_def state_pull_failed_def docker_image_def state0_def)

text \<open>
  Claim C2 as stated fails: the check of the container runtime, the connection to it and
  the image pull come before the files are written.  In a run where everything succeeds
  they are the third to fifth events, before the directory is created; and when the
  image does not exist the run ends after the pull without having written any file.
\<close>

theorem start_pull_before_write_counterexample:
  "take 8 (trace (snd (start_body env_ok records_one state0))) =
     [HttpGet ''https://api.ipify.org'' 3, Stdout ''Public IP detected: 203.0.113.9'',
      Shell ''docker ps'', FromEnv, ImagesPull ''ubuntu/bind9:latest'',
      Mkdir ''/etc/bind'' True True, WriteText ''/etc/bind/named.conf'', WriteText ''/etc/bind/db.mistral.ai'']
   \<and> start_body env_notfound records_one state0 =
       (Inl (DockerError ''Image ubuntu/bind9:latest not found''), state_pull_failed)
   \<and> files state_pull_failed = Map.empty"
proof -
  have h: "http_get env_ok = HttpResponse 200 ''203.0.113.9''"
    by (simp add: env_ok_def env_retry_def)
  from benign_run [OF benign_env_ok no_container_state0 h, of records_one]
  obtain s' cevs where run: "start_body env_ok records_one state0 = (Inr ''203.0.113.9'', s')"
    and t: "trace s' = trace state0
          @ [HttpGet ''https://api.ipify.org'' 3, Stdout (''Public IP detected: '' @ ''203.0.113.9''),
             Shell ''docker ps'', FromEnv, ImagesPull docker_image,
             Mkdir volume_path True True, WriteText named_conf_path]
          @ map (\<lambda>d. WriteText (zone_path d)) (keys (organize records_one (dns_records state0)))
          @ cevs"
    by blast
  have ks: "keys (organize records_one (dns_records state0)) = [''mistral.ai'']"
    by code_simp
  have pths: "named_conf_path = ''/etc/bind/named.conf''"
    "zone_path ''mistral.ai'' = ''/etc/bind/db.mistral.ai''" "volume_path = ''/etc/bind''"
    "docker_image = ''ubuntu/bind9:latest''"
    by (simp_all add: named_conf_path_def zone_path_def path_join_def volume_path_def docker_image_def)
  have 1: "take 8 (trace (snd (start_body env_ok records_one state0))) =
     [HttpGet ''https://api.ipify.org'' 3, Stdout ''Public IP detected: 203.0.113.9'',
      Shell ''docker ps'', FromEnv, ImagesPull ''ubuntu/bind9:latest'',
      Mkdir ''/etc/bind'' True True, WriteText ''/etc/bind/named.conf'', WriteText ''/etc/bind/db.mistral.ai'']"
  proof -
    have tr0: "trace state0 = []" by (simp add: state0_def)
    show ?thesis by (simp add: run t ks pths tr0)
  qed
  have 2: "start_body env_notfound records_one state0 =
       (Inl (DockerError ''Image ubuntu/bind9:latest not found''), state_pull_failed)"
  proof -
    have eq: "start_stages env_notfound records_one =
        [resolve_ip env_notfound, setup_docker env_notfound, docker_from_env env_notfound]
          @ pull_bind_image env_notfound
          # [build_model records_one, generate_zone_files env_notfound, start_container env_notfound]"
      by (simp add: start_stages_def)
    have ab: "run_stages ([resolve_ip env_notfound, setup_docker env_notfound, docker_from_env env_notfound]
          @ pull_bind_image env_notfound
          # [build_model records_one, generate_zone_files env_notfound, start_container env_notfound])
        state0 = (Inl (DockerError ''Image ubuntu/bind9:latest not found''), state_pull_failed)"
      using first_stages_notfound pull_notfound
      by (rule run_stages_abort [where f = "pull_bind_image env_notfound"])
    show ?thesis
      unfolding start_body_pipeline eq ab by simp
  qed
  have 3: "files state_pull_failed = Map.empty"
    by (simp add: state_pull_failed_def state0_def)
  show ?thesis by (intro conjI 1 2 3)
qed

text \<open>
  Claim C2, amended.  \<open>start\<close> runs its stages strictly in the order: resolve the public
  IP, check the container runtime and connect to it, pull the image, build the model
  from the input records, render and write the files, replace and launch the container.
  The first stage that fails ends the run in the state it leaves; no later stage is
  entered.  Accordingly the external calls of every run appear in the order of their
  stages, and a call that replaces or launches the container is made only when
  \<open>named.conf\<close> and the zone file of every apex domain are on disk.
\<close>

theorem start_stage_order:
  "start_body e records s =
     (case run_stages [resolve_ip e, setup_docker e, docker_from_env e, pull_bind_image e,
                       build_model records, generate_zone_files e, start_container e] s of
        (Inl x, s1) \<Rightarrow> (Inl x, s1)
      | (Inr u, s1) \<Rightarrow> (Inr (str_public_ip s1), s1))
   \<and> (\<forall>fs f gs t s0 x s1. run_stages fs t = (Inr (), s0) \<and> f s0 = (Inl x, s1) \<longrightarrow>
         run_stages (fs @ f # gs) t = (Inl x, s1))
   \<and> (\<exists>evs. trace (snd (start_body e records s)) = trace s @ evs
        \<and> sorted (map stage (calls evs))
        \<and> ((\<exists>ev \<in> set evs. stage ev = 5) \<longrightarrow>
              files (snd (start_body e records s)) named_conf_path \<noteq> None
              \<and> (\<forall>d \<in> set (keys (organize records (dns_records s))).
                    files (snd (start_body e records s)) (zone_path d) \<noteq> None)))"
proof (intro conjI)
  show "start_body e records s =
     (case run_stages [resolve_ip e, setup_docker e, docker_from_env e, pull_bind_image e,
                       build_model records, generate_zone_files e, start_container e] s of
        (Inl x, s1) \<Rightarrow> (Inl x, s1)
      | (Inr u, s1) \<Rightarrow> (Inr (str_public_ip s1), s1))"
    using start_body_pipeline [of e records s] unfolding start_stages_def .
  show "\<forall>fs f gs t s0 x s1. run_stages fs t = (Inr (), s0) \<and> f s0 = (Inl x, s1) \<longrightarrow>
         run_stages (fs @ f # gs) t = (Inl x, s1)"
    using run_stages_abort by blast
  show "\<exists>evs. trace (snd (start_body e records s)) = trace s @ evs
        \<and> sorted (map stage (calls evs))
        \<and> ((\<exists>ev \<in> set evs. stage ev = 5) \<longrightarrow>
              files (snd (start_body e records s)) named_conf_path \<noteq> None
              \<and> (\<forall>d \<in> set (keys (organize records (dns_records s))).
                    files (snd (start_body e records s)) (zone_path d) \<noteq> None))"
    by (rule start_body_trace)
qed

theorem start_stage_order_witness:
  "ContainersRun docker_image reserved_name \<in> set (trace (snd (start_body env_ok records_one state0)))
   \<and> stage (ContainersRun docker_image reserved_name) = 5
   \<and> keys (organize records_one (dns_records state0)) = [''mistral.ai'']
   \<and> files (snd (start_body env_ok records_one state0)) named_conf_path \<noteq> None
   \<and> files (snd (start_body env_ok records_one state0)) (zone_path ''mistral.ai'') \<noteq> None
   \<and> run_stages [resolve_ip env_notfound, setup_docker env_notfound, docker_from_env env_notfound]
        state0 = (Inr (), state_connected)
   \<and> pull_bind_image env_notfound state_connected =
        (Inl (DockerError ''Image ubuntu/bind9:latest not found''), state_pull_failed)
   \<and> run_stages ([resolve_ip env_notfound, setup_docker env_notfound, docker_from_env env_notfound]
          @ pull_bind_image env_notfound
          # [build_model records_one, generate_zone_files env_notfound, start_container env_notfound])
        state0 = (Inl (DockerError ''Image ubuntu/bind9:latest not found''), state_pull_failed)"
proof -
  have h: "http_get env_ok = HttpResponse 200 ''203.0.113.9''"
    by (simp add: env_ok_def env_retry_def)
  from benign_run [OF benign_env_ok no_container_state0 h, of records_one]
  obtain s' cevs where run: "start_body env_ok records_one state0 = (Inr ''203.0.113.9'', s')"
    and t: "trace s' = trace state0
          @ [HttpGet ''https://api.ipify.org'' 3, Stdout (''Public IP detected: '' @ ''203.0.113.9''),
             Shell ''docker ps'', FromEnv, ImagesPull docker_image,
             Mkdir volume_path True True, WriteText named_conf_path]
          @ map (\<lambda>d. WriteText (zone_path d)) (keys (organize records_one (dns_records state0)))
          @ cevs"
    and l: "ContainersRun docker_image reserved_name \<in> set cevs"
    by blast
  have sn: "snd (start_body env_ok records_one state0) = s'" by (simp add: run)
  have 1: "ContainersRun docker_image reserved_name \<in> set (trace s')"
    using l by (simp add: t)
  have 2: "stage (ContainersRun docker_image reserved_name) = 5" by simp
  have ks: "keys (organize records_one (dns_records state0)) = [''mistral.ai'']"
    by code_simp
  note th = start_stage_order [of env_ok records_one state0, unfolded sn]
  from th obtain evs where e: "trace s' = trace state0 @ evs"
    and f: "(\<exists>ev \<in> set evs. stage ev = 5) \<longrightarrow>
              files s' named_conf_path \<noteq> None
              \<and> (\<forall>d \<in> set (keys (organize records_one (dns_records state0))).
                    files s' (zone_path d) \<noteq> None)"
    by blast
  have "ContainersRun docker_image reserved_name \<in> set evs"
    using 1 e by (simp add: state0_def)
  with 2 have "\<exists>ev \<in> set evs. stage ev = 5" by blast
  with f have 3: "files s' named_conf_path \<noteq> None"
    and 4: "files s' (zone_path ''mistral.ai'') \<noteq> None"
    by (simp_all add: ks)
  from start_stage_order [of env_notfound records_one state0]
  have ab: "\<forall>fs f gs t s0 x s1. run_stages fs t = (Inr (), s0) \<and> f s0 = (Inl x, s1) \<longrightarrow>
         run_stages (fs @ f # gs) t = (Inl x, s1)" by blast
  have 5: "run_stages ([resolve_ip env_notfound, setup_docker env_notfound, docker_from_env env_notfound]
          @ pull_bind_image env_notfound
          # [build_model records_one, generate_zone_files env_notfound, start_container env_notfound])
        state0 = (Inl (DockerError ''Image ubuntu/bind9:latest not found''), state_pull_failed)"
    using ab first_stages_notfound pull_notfound by blast
  show ?thesis
    unfolding sn by (intro conjI 1 2 ks 3 4 first_stages_notfound pull_notfound 5)
qed

subsection \<open>Exit statuses\<close>














subsection \<open>What the input is checked for\<close>













end
